theory Spec2Isabelle
  imports Main "HOL-Library.Word" "HOL-Library.AList" "HOL-Library.Multiset"
begin

section \<open>Shared vocabulary\<close>

text \<open>
  Bytes are 8-bit words, party identifiers are strings (Go's \<open>party.ID\<close>). A Go function
  that can panic returns an \<open>outcome\<close>; a Go \<open>error\<close> result is an \<open>error option\<close>
  (\<open>None\<close> is Go's \<open>nil\<close>).
\<close>

type_synonym byte = "8 word"
type_synonym party_id = string

datatype error =
    ErrInvalidContent
  | ErrNilFields
  | ErrNotEnoughMessages
  | ErrDuplicateMessage
  | ErrOutChanFull
  | PedersenErrNilFields
  | PedersenErrSEqualT
  | PedersenErrNotValidModN
  | ErrExternal string

text \<open>
  \<open>ErrDuplicateMessage\<close> is the error kind \<open>DuplicateMessage\<close> of the specification;
  no function of the sources returns it.
\<close>

datatype 'a outcome = Returns 'a | Panics

section \<open>Presign round 5 (protocols/cmp/presign/presign5.go)\<close>

text \<open>
  The elliptic-curve group, the scalar action, the transcript fork, the ZK-elog prover and the
  helper's \<open>BroadcastMessage\<close> are external collaborators of the round: they are parameters
  of the model, collected in the record \<open>collab\<close>. Nothing is assumed about them in the
  definitions; a theorem that needs a group law states it as a hypothesis.
\<close>

record 'p broadcast5 =
  b5_BigGammaShare :: "'p option"

datatype 'p content =
    ContentNil
  | ContentBroadcast5 "'p broadcast5 option"
  | ContentOther

record 'p message =
  From :: party_id
  To :: party_id
  Content :: "'p content"

record ('p, 'c) zkelog_Public =
  pub_E :: "'c option"
  pub_ElGamalPublic :: "'p option"
  pub_Base :: 'p
  pub_Y :: 'p

record 's zkelog_Private =
  priv_Y :: 's
  priv_Lambda :: 's

record ('p, 'pf) broadcast6 =
  BigDeltaShare :: 'p
  Proof :: 'pf

text \<open>
  A Go map is an association list with distinct keys: \<open>m[k] = v\<close> is \<open>AList.update k v m\<close>,
  \<open>m[k]\<close> is \<open>map_of m k\<close> (\<open>None\<close> for the zero value of a missing key), \<open>len(m)\<close> is the
  length of the list, and \<open>range m\<close> visits the entries in the order of the list. Go leaves
  the iteration order open, so the order of the list is whatever order the runtime picks.
\<close>

type_synonym ('k, 'v) gomap = "('k \<times> 'v) list"

record ('p, 's, 'c) presign5 =
  helper_N :: nat
  SelfID :: party_id
  KShare :: 's
  ElGamalKNonce :: 's
  ElGamalK :: "(party_id, 'c) gomap"
  ElGamal :: "(party_id, 'p) gomap"
  BigGammaShare :: "(party_id, 'p) gomap"
  MessageBroadcasted :: "(party_id, bool) gomap"

record ('p, 's, 'c) presign6 =
  presign5_of :: "('p, 's, 'c) presign5"
  Gamma :: 'p
  BigDeltaShares :: "(party_id, 'p) gomap"
  MessageBroadcasted6 :: "(party_id, bool) gomap"

datatype ('p, 's, 'c) session =
    SessionNil
  | Session5 "('p, 's, 'c) presign5"
  | Session6 "('p, 's, 'c) presign6"

record ('p, 's, 'c, 'h, 'pf, 'o) collab =
  NewPoint :: 'p
  Add :: "'p \<Rightarrow> 'p \<Rightarrow> 'p"
  IsIdentity :: "'p \<Rightarrow> bool"
  Act :: "'s \<Rightarrow> 'p \<Rightarrow> 'p"
  HashForID :: "party_id \<Rightarrow> 'h"
  NewProof :: "'h \<Rightarrow> ('p, 'c) zkelog_Public \<Rightarrow> 's zkelog_Private \<Rightarrow> 'pf"
  BroadcastMessage :: "'o \<Rightarrow> ('p, 'pf) broadcast6 \<Rightarrow> error option \<times> 'o"

text \<open>
  A concrete set of collaborators for the examples: the additive group of the integers,
  scalars acting by multiplication, a proof that is the statement it proves, and an output
  channel with room for \<open>cap\<close> messages, on which \<open>BroadcastMessage\<close> reports a full
  channel.
\<close>

definition example_collab ::
  "nat \<Rightarrow> (int, int, int, party_id, (int, int) zkelog_Public, (int, (int, int) zkelog_Public) broadcast6 list) collab" where
  "example_collab cap =
     \<lparr>NewPoint = 0,
      Add = (\<lambda>a b. a + b),
      IsIdentity = (\<lambda>a. a = 0),
      Act = (\<lambda>k a. k * a),
      HashForID = (\<lambda>j. j),
      NewProof = (\<lambda>h pub priv. pub),
      BroadcastMessage = (\<lambda>out m. if length out < cap then (None, out @ [m]) else (Some ErrOutChanFull, out))\<rparr>"

definition example_round :: "(int, int, int) presign5" where
  "example_round =
     \<lparr>helper_N = 3, SelfID = ''A'', KShare = 2, ElGamalKNonce = 9,
      ElGamalK = [(''A'', 11)], ElGamal = [(''A'', 13)],
      BigGammaShare = [(''A'', 3)], MessageBroadcasted = []\<rparr>"

definition broadcast5_msg :: "party_id \<Rightarrow> 'p \<Rightarrow> 'p message" where
  "broadcast5_msg j P =
     \<lparr>From = j, To = [], Content = ContentBroadcast5 (Some \<lparr>b5_BigGammaShare = Some P\<rparr>)\<rparr>"

text \<open>
  \<open>StoreBroadcastMessage\<close> returns the round after the call together with the error. A nil
  \<open>curve.Point\<close> inside the body makes the call of \<open>IsIdentity\<close> panic.
\<close>

definition StoreBroadcastMessage ::
  "('p, 's, 'c, 'h, 'pf, 'o) collab \<Rightarrow> ('p, 's, 'c) presign5 \<Rightarrow> 'p message
     \<Rightarrow> (('p, 's, 'c) presign5 \<times> error option) outcome" where
  "StoreBroadcastMessage env r msg =
     (case Content msg of
        ContentBroadcast5 (Some body) \<Rightarrow>
          (case b5_BigGammaShare body of
             None \<Rightarrow> Panics
           | Some P \<Rightarrow>
               if IsIdentity env P then Returns (r, Some ErrNilFields)
               else Returns
                 (r\<lparr>BigGammaShare := AList.update (From msg) P (BigGammaShare r),
                    MessageBroadcasted := AList.update (From msg) True (MessageBroadcasted r)\<rparr>,
                  None))
      | _ \<Rightarrow> Returns (r, Some ErrInvalidContent))"

text \<open>The loop \<open>for _, GammaJ := range r.BigGammaShare { Gamma = Gamma.Add(GammaJ) }\<close>.\<close>

fun sum_loop :: "('p \<Rightarrow> 'p \<Rightarrow> 'p) \<Rightarrow> 'p \<Rightarrow> (party_id, 'p) gomap \<Rightarrow> 'p" where
  "sum_loop add G [] = G"
| "sum_loop add G ((j, GammaJ) # rest) = sum_loop add (add G GammaJ) rest"

text \<open>
  \<open>Finalize\<close> returns the session, the error and the output channel after the call.
  \<open>helper_N\<close> is the helper's \<open>N()\<close>, the number of parties; \<open>r.N() - 1\<close> is a Go
  \<open>int\<close>, so the comparison is made on integers.
\<close>

definition Finalize ::
  "('p, 's, 'c, 'h, 'pf, 'o) collab \<Rightarrow> ('p, 's, 'c) presign5 \<Rightarrow> 'o
     \<Rightarrow> ('p, 's, 'c) session \<times> error option \<times> 'o" where
  "Finalize env r out =
     (if int (length (MessageBroadcasted r)) \<noteq> int (helper_N r) - 1
      then (SessionNil, Some ErrNotEnoughMessages, out)
      else
        let Gamma_v = sum_loop (Add env) (NewPoint env) (BigGammaShare r);
            BigDeltaShare_v = Act env (KShare r) Gamma_v;
            proofLog = NewProof env (HashForID env (SelfID r))
              \<lparr>pub_E = map_of (ElGamalK r) (SelfID r),
               pub_ElGamalPublic = map_of (ElGamal r) (SelfID r),
               pub_Base = Gamma_v,
               pub_Y = BigDeltaShare_v\<rparr>
              \<lparr>priv_Y = KShare r, priv_Lambda = ElGamalKNonce r\<rparr>;
            sent = BroadcastMessage env out \<lparr>BigDeltaShare = BigDeltaShare_v, Proof = proofLog\<rparr>
        in (case fst sent of
              Some err \<Rightarrow> (Session5 r, Some err, snd sent)
            | None \<Rightarrow>
                (Session6 \<lparr>presign5_of = r,
                           Gamma = Gamma_v,
                           BigDeltaShares = [(SelfID r, BigDeltaShare_v)],
                           MessageBroadcasted6 = []\<rparr>,
                 None, snd sent)))"

definition CanFinalize :: "('p, 's, 'c) presign5 \<Rightarrow> bool" where
  "CanFinalize r = (int (length (MessageBroadcasted r)) = int (helper_N r) - 1)"

definition Number5 :: "('p, 's, 'c) presign5 \<Rightarrow> nat" where
  "Number5 r = 5"

section \<open>Byte slices and fixed-width integers\<close>

text \<open>
  A Go byte slice is a window on a backing array: \<open>backing\<close> holds the array from the
  slice's first byte to the end of its capacity, \<open>slen\<close> is \<open>len\<close>. The slice expression
  \<open>s[lo:hi]\<close> is checked against the capacity, not the length, and panics outside it.
\<close>

datatype goslice = Slice (backing: "byte list") (slen: nat)

definition slice_bytes :: "goslice \<Rightarrow> byte list" where
  "slice_bytes sl = take (slen sl) (backing sl)"

definition exact_slice :: "byte list \<Rightarrow> goslice" where
  "exact_slice bs = Slice bs (length bs)"

definition reslice :: "goslice \<Rightarrow> nat \<Rightarrow> nat \<Rightarrow> goslice outcome" where
  "reslice sl lo hi =
     (if lo \<le> hi \<and> hi \<le> length (backing sl)
      then Returns (Slice (drop lo (backing sl)) (hi - lo))
      else Panics)"

definition obind :: "'a outcome \<Rightarrow> ('a \<Rightarrow> 'b outcome) \<Rightarrow> 'b outcome" where
  "obind x f = (case x of Panics \<Rightarrow> Panics | Returns v \<Rightarrow> f v)"

text \<open>\<open>binary.LittleEndian.Uint16\<close> and \<open>PutUint16\<close>, \<open>binary.BigEndian.PutUint64\<close>.\<close>

definition LittleEndian_Uint16 :: "goslice \<Rightarrow> 16 word outcome" where
  "LittleEndian_Uint16 b =
     (case slice_bytes b of
        b0 # b1 # rest \<Rightarrow> Returns (or (ucast b0) (push_bit 8 (ucast b1)))
      | _ \<Rightarrow> Panics)"

definition LittleEndian_PutUint16 :: "16 word \<Rightarrow> byte list" where
  "LittleEndian_PutUint16 v = [ucast v, ucast (drop_bit 8 v)]"

definition BigEndian_PutUint64 :: "64 word \<Rightarrow> byte list" where
  "BigEndian_PutUint64 v =
     [ucast (drop_bit 56 v), ucast (drop_bit 48 v), ucast (drop_bit 40 v),
      ucast (drop_bit 32 v), ucast (drop_bit 24 v), ucast (drop_bit 16 v),
      ucast (drop_bit 8 v), ucast v]"

text \<open>
  The \<open>MarshalBinary\<close> and \<open>UnmarshalBinary\<close> methods of \<open>arith.Modulus\<close>,
  \<open>saferith.Modulus\<close>, \<open>saferith.Nat\<close> and \<open>paillier.SecretKey\<close> belong to other
  packages: they are parameters. A modulus and a natural are modelled by their value.
\<close>

record 'sk codec =
  Modulus_MarshalBinary :: "nat \<Rightarrow> error + byte list"
  Modulus_UnmarshalBinary :: "byte list \<Rightarrow> error + nat"
  Nat_MarshalBinary :: "nat \<Rightarrow> error + byte list"
  Nat_UnmarshalBinary :: "byte list \<Rightarrow> error + nat"
  SecretKey_MarshalBinary :: "'sk \<Rightarrow> error + byte list"
  SecretKey_UnmarshalBinary :: "byte list \<Rightarrow> error + 'sk"

text \<open>
  Big-endian bytes of a natural, used as the concrete codec of the examples
  (\<open>saferith\<close> writes naturals big-endian); there a secret key is kept as its blob.
\<close>

fun be_bytes :: "nat \<Rightarrow> byte list" where
  "be_bytes n = (if n = 0 then [] else be_bytes (n div 256) @ [of_nat (n mod 256)])"

definition be_nat :: "byte list \<Rightarrow> nat" where
  "be_nat bs = foldl (\<lambda>acc b. acc * 256 + unat b) 0 bs"

definition be_codec :: "byte list codec" where
  "be_codec =
     \<lparr>Modulus_MarshalBinary = (\<lambda>n. Inr (be_bytes n)),
      Modulus_UnmarshalBinary = (\<lambda>bs. Inr (be_nat bs)),
      Nat_MarshalBinary = (\<lambda>n. Inr (be_bytes n)),
      Nat_UnmarshalBinary = (\<lambda>bs. Inr (be_nat bs)),
      SecretKey_MarshalBinary = (\<lambda>blob. Inr blob),
      SecretKey_UnmarshalBinary = (\<lambda>bs. Inr bs)\<rparr>"

section \<open>Pedersen parameters (core/pedersen/pedersen.go)\<close>

record Parameters =
  p_n :: "nat option"
  p_s :: "nat option"
  p_t :: "nat option"

text \<open>
  Modelled from the spec: \<open>arith.IsValidNatModN\<close> is not among the sources. Section 4.1 gives
  \<open>is_in_unit_group(a, N)\<close> as \<open>a \<in> [1, N-1]\<close> and \<open>gcd(a, N) = 1\<close>; the helper takes several
  naturals and holds when each of them is present and in the unit group.
\<close>

definition is_in_unit_group :: "nat \<Rightarrow> nat \<Rightarrow> bool" where
  "is_in_unit_group a m = (1 \<le> a \<and> a < m \<and> gcd a m = 1)"

definition IsValidNatModN :: "nat \<Rightarrow> nat option list \<Rightarrow> bool" where
  "IsValidNatModN m ints =
     list_all (\<lambda>i. case i of None \<Rightarrow> False | Some a \<Rightarrow> is_in_unit_group a m) ints"

definition ValidateParameters :: "nat option \<Rightarrow> nat option \<Rightarrow> nat option \<Rightarrow> error option" where
  "ValidateParameters n s t =
     (if n = None \<or> s = None \<or> t = None then Some PedersenErrNilFields
      else if \<not> IsValidNatModN (the n) [s, t] then Some PedersenErrNotValidModN
      else if the s = the t then Some PedersenErrSEqualT
      else None)"

text \<open>
  Modelled from the spec: the modulus methods \<open>ExpI\<close> and \<open>ModMul\<close> are not among the
  sources. Section 4.1 gives \<open>mod_mul(a, b, N)\<close> as \<open>ab mod N\<close> and \<open>mod_exp_signed(base, exp, N)\<close>
  as \<open>base^exp mod N\<close> for a signed exponent, where a negative exponent first inverts the base
  modulo \<open>N\<close>. The inverse is computed from the Bezout coefficients of the base and \<open>N\<close>.
\<close>

definition ModInverse :: "nat \<Rightarrow> nat \<Rightarrow> nat" where
  "ModInverse m x = nat (fst (bezw x m) mod int m)"

definition ModMul :: "nat \<Rightarrow> nat \<Rightarrow> nat \<Rightarrow> nat" where
  "ModMul x y m = (x * y) mod m"

definition ExpI :: "nat \<Rightarrow> nat \<Rightarrow> int \<Rightarrow> nat" where
  "ExpI m x e =
     (if e < 0 then (ModInverse m x) ^ nat (- e) mod m else x ^ nat e mod m)"

text \<open>
  \<open>Verify\<close> dereferences \<open>p.n\<close>, \<open>p.s\<close> and \<open>p.t\<close>; on parameters with a nil field it panics.
\<close>

definition Verify ::
  "Parameters \<Rightarrow> int option \<Rightarrow> int option \<Rightarrow> int option \<Rightarrow> nat option \<Rightarrow> nat option
     \<Rightarrow> bool outcome" where
  "Verify p a b e S T =
     (if a = None \<or> b = None \<or> S = None \<or> T = None \<or> e = None then Returns False
      else case p_n p of
        None \<Rightarrow> Panics
      | Some nMod \<Rightarrow>
          if \<not> IsValidNatModN nMod [S, T] then Returns False
          else (case p_s p of
             None \<Rightarrow> Panics
           | Some sv \<Rightarrow>
              (case p_t p of
                 None \<Rightarrow> Panics
               | Some tv \<Rightarrow>
                   let sa = ExpI nMod sv (the a);
                       tb = ExpI nMod tv (the b);
                       lhs = ModMul sa tb nMod;
                       te = ExpI nMod (the T) (the e);
                       rhs = ModMul te (the S) nMod
                   in Returns (lhs = rhs))))"

text \<open>
  The relation \<open>s^a \<cdot> t^b \<equiv> S \<cdot> T^e (mod N)\<close> of the specification. The exponents are
  signed, and a negative power of a unit is a power of its inverse; the relation is written
  without inverses by moving every negative power to the other side of the congruence
  (\<open>nat\<close> of a negative integer is 0, so each side keeps the powers that belong there).
  For \<open>a, b, e \<ge> 0\<close> it reads \<open>s^a \<cdot> t^b mod N = S \<cdot> T^e mod N\<close>.
\<close>

definition pedersen_congruence ::
  "nat \<Rightarrow> nat \<Rightarrow> nat \<Rightarrow> int \<Rightarrow> int \<Rightarrow> int \<Rightarrow> nat \<Rightarrow> nat \<Rightarrow> bool" where
  "pedersen_congruence m s t a b e S T =
     ((s ^ nat a * t ^ nat b * T ^ nat (- e)) mod m
        = (S * T ^ nat e * s ^ nat (- a) * t ^ nat (- b)) mod m)"

text \<open>
  \<open>MarshalBiinary\<close>: the three encodings, each after its length as a little-endian
  \<open>uint16\<close>; \<open>uint16(len(b))\<close> keeps the low 16 bits of the length.
\<close>

definition MarshalBiinary :: "'sk codec \<Rightarrow> Parameters \<Rightarrow> (error + byte list) outcome" where
  "MarshalBiinary cd p =
     (case p_n p of
        None \<Rightarrow> Panics
      | Some nv \<Rightarrow>
         (case Modulus_MarshalBinary cd nv of
            Inl err \<Rightarrow> Returns (Inl err)
          | Inr nb \<Rightarrow>
             (case p_s p of
                None \<Rightarrow> Panics
              | Some sv \<Rightarrow>
                 (case Nat_MarshalBinary cd sv of
                    Inl err \<Rightarrow> Returns (Inl err)
                  | Inr sb \<Rightarrow>
                     (case p_t p of
                        None \<Rightarrow> Panics
                      | Some tv \<Rightarrow>
                         (case Nat_MarshalBinary cd tv of
                            Inl err \<Rightarrow> Returns (Inl err)
                          | Inr tb \<Rightarrow>
                              let nlb = LittleEndian_PutUint16 (of_nat (length nb));
                                  slb = LittleEndian_PutUint16 (of_nat (length sb));
                                  tlb = LittleEndian_PutUint16 (of_nat (length tb))
                              in Returns (Inr (nlb @ nb @ slb @ sb @ tlb @ tb))))))))"

text \<open>
  \<open>UnmarshalBiinary\<close> first cuts the six fields out of \<open>data\<close>, with offsets computed in
  \<open>uint16\<close>, then decodes them in turn; it returns the parameters as the call leaves them.
\<close>

definition UnmarshalBiinary ::
  "'sk codec \<Rightarrow> Parameters \<Rightarrow> goslice \<Rightarrow> (Parameters \<times> error option) outcome" where
  "UnmarshalBiinary cd p data =
     obind (reslice data 0 2) (\<lambda>nlb.
     obind (LittleEndian_Uint16 nlb) (\<lambda>nl.
     obind (reslice data 2 (unat (2 + nl))) (\<lambda>nb.
     obind (reslice data (unat (2 + nl)) (unat (2 + nl + 2))) (\<lambda>slb.
     obind (LittleEndian_Uint16 slb) (\<lambda>sl.
     obind (reslice data (unat (2 + nl + 2)) (unat (2 + nl + 2 + sl))) (\<lambda>sb.
     obind (reslice data (unat (2 + nl + 2 + sl)) (unat (2 + nl + 2 + sl + 2))) (\<lambda>tlb.
     obind (LittleEndian_Uint16 tlb) (\<lambda>tl.
     obind (reslice data (unat (2 + nl + 2 + sl + 2)) (unat (2 + nl + 2 + sl + 2 + tl))) (\<lambda>tb.
       case Modulus_UnmarshalBinary cd (slice_bytes nb) of
         Inl err \<Rightarrow> Returns (p, Some err)
       | Inr nv \<Rightarrow>
          (case Nat_UnmarshalBinary cd (slice_bytes sb) of
             Inl err \<Rightarrow> Returns (p\<lparr>p_n := Some nv\<rparr>, Some err)
           | Inr sv \<Rightarrow>
              (case Nat_UnmarshalBinary cd (slice_bytes tb) of
                 Inl err \<Rightarrow> Returns (p\<lparr>p_n := Some nv, p_s := Some sv\<rparr>, Some err)
               | Inr tv \<Rightarrow>
                   Returns (p\<lparr>p_n := Some nv, p_s := Some sv, p_t := Some tv\<rparr>, None)))
     )))))))))"

text \<open>
  The wire format as the specification words it: \<open>u16_le\<close> of a length, on numbers.
  \<open>unmarshal_marshal\<close> is \<open>deserialize(serialize(p))\<close>: the bytes of \<open>MarshalBiinary\<close>,
  in a slice of their own length, given to \<open>UnmarshalBiinary\<close> on some parameters \<open>p0\<close>.
\<close>

definition u16_le :: "nat \<Rightarrow> byte list" where
  "u16_le n = [of_nat (n mod 256), of_nat (n div 256 mod 256)]"

definition unmarshal_marshal ::
  "'sk codec \<Rightarrow> Parameters \<Rightarrow> Parameters \<Rightarrow> (Parameters \<times> error option) outcome" where
  "unmarshal_marshal cd p0 p =
     (case MarshalBiinary cd p of
        Panics \<Rightarrow> Panics
      | Returns (Inl err) \<Rightarrow> Returns (p0, Some err)
      | Returns (Inr wire) \<Rightarrow> UnmarshalBiinary cd p0 (exact_slice wire))"

section \<open>Paillier keys (pkg/cryptosuite/paillier: key and key manager)\<close>

text \<open>A public key is modelled by its modulus \<open>N\<close>; the secret key type is a parameter.\<close>

record 'sk PaillierKey =
  secretKey :: "'sk option"
  publicKey :: "nat option"

definition PaillierKey_zero :: "'sk PaillierKey" where
  "PaillierKey_zero = \<lparr>secretKey = None, publicKey = None\<rparr>"

definition Bytes :: "'sk codec \<Rightarrow> 'sk PaillierKey \<Rightarrow> (error + byte list) outcome" where
  "Bytes cd k =
     (case publicKey k of
        None \<Rightarrow> Panics
      | Some nv \<Rightarrow>
         (case Modulus_MarshalBinary cd nv of
            Inl err \<Rightarrow> Returns (Inl err)
          | Inr nb \<Rightarrow>
              let nl = LittleEndian_PutUint16 (of_nat (length nb));
                  buf = nl @ nb
              in (case secretKey k of
                    None \<Rightarrow> Returns (Inr buf)
                  | Some sk \<Rightarrow>
                     (case SecretKey_MarshalBinary cd sk of
                        Inl err \<Rightarrow> Returns (Inl err)
                      | Inr skb \<Rightarrow>
                          let sl = LittleEndian_PutUint16 (of_nat (length skb))
                          in Returns (Inr (buf @ sl @ skb))))))"

definition fromBytes :: "'sk codec \<Rightarrow> goslice \<Rightarrow> ('sk PaillierKey \<times> error option) outcome" where
  "fromBytes cd data =
     obind (reslice data 0 2) (\<lambda>nlb.
     obind (LittleEndian_Uint16 nlb) (\<lambda>nl.
       if nl = 0 then Returns (PaillierKey_zero, None)
       else
     obind (reslice data 2 (unat (nl + 2))) (\<lambda>nb.
       case Modulus_UnmarshalBinary cd (slice_bytes nb) of
         Inl err \<Rightarrow> Returns (PaillierKey_zero, Some err)
       | Inr nv \<Rightarrow>
     obind (reslice data (unat (nl + 2)) (unat (nl + 4))) (\<lambda>slb.
     obind (LittleEndian_Uint16 slb) (\<lambda>sl.
       if sl = 0 then Returns (\<lparr>secretKey = None, publicKey = Some nv\<rparr>, None)
       else
     obind (reslice data (unat (nl + 4)) (unat (nl + 4 + sl))) (\<lambda>sb.
       case SecretKey_UnmarshalBinary cd (slice_bytes sb) of
         Inl err \<Rightarrow> Returns (PaillierKey_zero, Some err)
       | Inr sk \<Rightarrow> Returns (\<lparr>secretKey = Some sk, publicKey = Some nv\<rparr>, None)))))))"

text \<open>The keystore is an external collaborator: its \<open>Get\<close> is a parameter of the manager.\<close>

record 'opts PaillierKeyManager =
  keystore_Get :: "'opts \<Rightarrow> goslice \<times> error option"

definition GetKey ::
  "'sk codec \<Rightarrow> 'opts PaillierKeyManager \<Rightarrow> 'opts \<Rightarrow> ('sk PaillierKey \<times> error option) outcome" where
  "GetKey cd mgr opts =
     (case keystore_Get mgr opts of
        (decoded, Some err) \<Rightarrow> Returns (PaillierKey_zero, None)
      | (decoded, None) \<Rightarrow>
          obind (fromBytes cd decoded) (\<lambda>res.
            case snd res of
              Some err \<Rightarrow> Returns (PaillierKey_zero, None)
            | None \<Rightarrow> Returns (fst res, None)))"

section \<open>Transcript hash (pkg/cryptosuite/hash)\<close>

text \<open>
  The BLAKE3 hasher is external. Its state is modelled by the bytes written to it since
  \<open>blake3.New()\<close>; its output stream is a parameter \<open>digest\<close> from the written bytes to the
  bytes the reader can deliver.
\<close>

record BytesWithDomain =
  TheDomain :: string
  Bytes_of :: "byte list"

record Hash =
  h_written :: "byte list"
  h_state :: "BytesWithDomain list"

definition string_bytes :: "string \<Rightarrow> byte list" where
  "string_bytes str = map (\<lambda>c. of_nat (of_char c)) str"

definition Hash_New :: Hash where
  "Hash_New = \<lparr>h_written = [], h_state = []\<rparr>"

definition h_Write :: "Hash \<Rightarrow> byte list \<Rightarrow> Hash" where
  "h_Write hash bs = hash\<lparr>h_written := h_written hash @ bs\<rparr>"

definition writeBytesWithDomain :: "Hash \<Rightarrow> BytesWithDomain \<Rightarrow> Hash" where
  "writeBytesWithDomain hash toBeWritten =
     (let h1 = h_Write hash (string_bytes ''('');
          sizeBuf1 = BigEndian_PutUint64 (of_nat (length (TheDomain toBeWritten)));
          h2 = h_Write h1 sizeBuf1;
          h3 = h_Write h2 (string_bytes (TheDomain toBeWritten));
          sizeBuf2 = BigEndian_PutUint64 (of_nat (length (Bytes_of toBeWritten)));
          h4 = h_Write h3 sizeBuf2;
          h5 = h_Write h4 (Bytes_of toBeWritten)
      in h_Write h5 (string_bytes '')''))"

text \<open>
  Modelled from the spec: the constant \<open>core_hash.DigestLengthBytes\<close> is not among the
  sources; section 4.4 and section 6 give the digest length as 32 bytes.
\<close>

definition DigestLengthBytes :: nat where
  "DigestLengthBytes = 32"

text \<open>\<open>io.ReadFull\<close> fails when the reader ends early, and \<open>Sum\<close> panics on that error.\<close>

definition Sum :: "(byte list \<Rightarrow> byte list) \<Rightarrow> Hash \<Rightarrow> byte list outcome" where
  "Sum digest hash =
     (let stream = digest (h_written hash)
      in if DigestLengthBytes \<le> length stream then Returns (take DigestLengthBytes stream)
         else Panics)"

text \<open>The framing rule as the specification words it, on the lengths as numbers.\<close>

definition u64_be :: "nat \<Rightarrow> byte list" where
  "u64_be n = map (\<lambda>i. of_nat (n div 256 ^ i mod 256)) [7, 6, 5, 4, 3, 2, 1, 0]"

definition frame :: "string \<Rightarrow> byte list \<Rightarrow> byte list" where
  "frame domain bs =
     [40] @ u64_be (length domain) @ string_bytes domain @ u64_be (length bs) @ bs @ [41]"

section \<open>Properties of presign round 5\<close>

lemma store_msg_simps:
  "StoreBroadcastMessage env r (broadcast5_msg j P) =
     (if IsIdentity env P then Returns (r, Some ErrNilFields)
      else Returns (r\<lparr>BigGammaShare := AList.update j P (BigGammaShare r),
                    MessageBroadcasted := AList.update j True (MessageBroadcasted r)\<rparr>, None))"
  by (simp add: StoreBroadcastMessage_def broadcast5_msg_def)

text \<open>
  Claim C6. A broadcast of the right content type whose point is the group identity is
  answered with \<open>ErrNilFields\<close> and the round is returned as it was; a point that is not the
  identity is recorded under the sender in \<open>BigGammaShare\<close>, the sender is marked in
  \<open>MessageBroadcasted\<close>, and the entries of the other parties are left alone.
\<close>

theorem store_broadcast_identity_check:
  "(IsIdentity env P \<longrightarrow>
      StoreBroadcastMessage env r (broadcast5_msg j P) = Returns (r, Some ErrNilFields))
   \<and> (\<not> IsIdentity env P \<longrightarrow>
      (\<exists>r'. StoreBroadcastMessage env r (broadcast5_msg j P) = Returns (r', None)
         \<and> map_of (BigGammaShare r') j = Some P
         \<and> map_of (MessageBroadcasted r') j = Some True
         \<and> (\<forall>k. k \<noteq> j \<longrightarrow> map_of (BigGammaShare r') k = map_of (BigGammaShare r) k
                    \<and> map_of (MessageBroadcasted r') k = map_of (MessageBroadcasted r) k)))"
proof (intro conjI impI)
  assume "IsIdentity env P"
  then show "StoreBroadcastMessage env r (broadcast5_msg j P) = Returns (r, Some ErrNilFields)"
    by (simp add: store_msg_simps)
next
  assume nid: "\<not> IsIdentity env P"
  let ?r' = "r\<lparr>BigGammaShare := AList.update j P (BigGammaShare r),
               MessageBroadcasted := AList.update j True (MessageBroadcasted r)\<rparr>"
  have run: "StoreBroadcastMessage env r (broadcast5_msg j P) = Returns (?r', None)"
    using nid by (simp add: store_msg_simps)
  have own: "map_of (BigGammaShare ?r') j = Some P" "map_of (MessageBroadcasted ?r') j = Some True"
    by (simp_all add: update_conv')
  have others: "\<forall>k. k \<noteq> j \<longrightarrow> map_of (BigGammaShare ?r') k = map_of (BigGammaShare r) k
                    \<and> map_of (MessageBroadcasted ?r') k = map_of (MessageBroadcasted r) k"
    by (simp add: update_conv')
  from run own others
  show "\<exists>r'. StoreBroadcastMessage env r (broadcast5_msg j P) = Returns (r', None)
         \<and> map_of (BigGammaShare r') j = Some P
         \<and> map_of (MessageBroadcasted r') j = Some True
         \<and> (\<forall>k. k \<noteq> j \<longrightarrow> map_of (BigGammaShare r') k = map_of (BigGammaShare r) k
                    \<and> map_of (MessageBroadcasted r') k = map_of (MessageBroadcasted r) k)"
    by (intro exI [of _ ?r'] conjI)
qed

theorem store_broadcast_identity_check_witness:
  "IsIdentity (example_collab 1) (0::int)
   \<and> StoreBroadcastMessage (example_collab 1) example_round (broadcast5_msg ''B'' 0)
       = Returns (example_round, Some ErrNilFields)
   \<and> \<not> IsIdentity (example_collab 1) (5::int)
   \<and> (\<exists>r'. StoreBroadcastMessage (example_collab 1) example_round (broadcast5_msg ''B'' 5)
              = Returns (r', None)
         \<and> map_of (BigGammaShare r') ''B'' = Some 5
         \<and> map_of (MessageBroadcasted r') ''B'' = Some True
         \<and> map_of (BigGammaShare r') ''A'' = Some 3)"
proof -
  have i0: "IsIdentity (example_collab 1) (0::int)"
    and i5: "\<not> IsIdentity (example_collab 1) (5::int)"
    by (simp_all add: example_collab_def)
  have A: "''A'' \<noteq> ''B''" by simp
  from store_broadcast_identity_check [of "example_collab 1" 0 example_round "''B''"] i0
  have a: "StoreBroadcastMessage (example_collab 1) example_round (broadcast5_msg ''B'' 0)
       = Returns (example_round, Some ErrNilFields)" by blast
  from store_broadcast_identity_check [of "example_collab 1" 5 example_round "''B''"] i5
  obtain r' where r': "StoreBroadcastMessage (example_collab 1) example_round (broadcast5_msg ''B'' 5)
              = Returns (r', None)" "map_of (BigGammaShare r') ''B'' = Some 5"
         "map_of (MessageBroadcasted r') ''B'' = Some True"
         "\<forall>k. k \<noteq> ''B'' \<longrightarrow> map_of (BigGammaShare r') k = map_of (BigGammaShare example_round) k
                    \<and> map_of (MessageBroadcasted r') k = map_of (MessageBroadcasted example_round) k"
    by blast
  from r'(4) [rule_format, OF A]
  have "map_of (BigGammaShare r') ''A'' = map_of (BigGammaShare example_round) ''A''"
    by (rule conjunct1)
  then have "map_of (BigGammaShare r') ''A'' = Some 3" by (simp add: example_round_def)
  with i0 i5 a r'(1,2,3) show ?thesis by (intro conjI exI[of _ r']) assumption+
qed

text \<open>
  Claim C1, as stated, fails: after the broadcast of \<open>B\<close> with the point 5 is accepted, a
  second broadcast of \<open>B\<close> with the point 7 is accepted too, with no error, and the stored
  share of \<open>B\<close> is 7 afterwards.
\<close>

theorem store_broadcast_duplicate_counterexample:
  "StoreBroadcastMessage (example_collab 1) example_round (broadcast5_msg ''B'' 5)
     = Returns (example_round\<lparr>BigGammaShare := [(''A'', 3), (''B'', 5)],
                              MessageBroadcasted := [(''B'', True)]\<rparr>, None)
   \<and> StoreBroadcastMessage (example_collab 1)
        (example_round\<lparr>BigGammaShare := [(''A'', 3), (''B'', 5)],
                       MessageBroadcasted := [(''B'', True)]\<rparr>) (broadcast5_msg ''B'' 7)
     = Returns (example_round\<lparr>BigGammaShare := [(''A'', 3), (''B'', 7)],
                              MessageBroadcasted := [(''B'', True)]\<rparr>, None)
   \<and> StoreBroadcastMessage (example_collab 1)
        (example_round\<lparr>BigGammaShare := [(''A'', 3), (''B'', 5)],
                       MessageBroadcasted := [(''B'', True)]\<rparr>) (broadcast5_msg ''B'' 7)
     \<noteq> Returns (example_round\<lparr>BigGammaShare := [(''A'', 3), (''B'', 5)],
                              MessageBroadcasted := [(''B'', True)]\<rparr>, Some ErrDuplicateMessage)"
  by (simp add: store_msg_simps example_collab_def example_round_def)

text \<open>
  Claim C1, amended. The round has no duplicate check. Once a broadcast of \<open>j\<close> has been
  accepted, a second broadcast of \<open>j\<close> whose point is not the identity returns no error,
  replaces the stored \<open>BigGammaShare[j]\<close> by the new point, and leaves
  \<open>MessageBroadcasted\<close> (so also the number of senders counted) and the shares of the other
  parties as they were.
\<close>

theorem store_broadcast_second_call:
  assumes first: "StoreBroadcastMessage env r0 (broadcast5_msg j P) = Returns (r1, None)"
    and nid: "\<not> IsIdentity env P'"
  shows "\<exists>r2. StoreBroadcastMessage env r1 (broadcast5_msg j P') = Returns (r2, None)
     \<and> map_of (BigGammaShare r2) j = Some P'
     \<and> MessageBroadcasted r2 = MessageBroadcasted r1
     \<and> map_of (MessageBroadcasted r2) j = Some True
     \<and> (\<forall>k. k \<noteq> j \<longrightarrow> map_of (BigGammaShare r2) k = map_of (BigGammaShare r1) k)"
proof -
  from first have r1: "r1 = r0\<lparr>BigGammaShare := AList.update j P (BigGammaShare r0),
                    MessageBroadcasted := AList.update j True (MessageBroadcasted r0)\<rparr>"
    by (simp add: store_msg_simps split: if_splits)
  have "map_of (MessageBroadcasted r1) j = Some True"
    by (simp add: r1 update_conv')
  then have "AList.update j True (MessageBroadcasted r1) = MessageBroadcasted r1"
    by (rule update_triv)
  with nid show ?thesis
    by (simp add: store_msg_simps update_conv' \<open>map_of (MessageBroadcasted r1) j = Some True\<close>)
qed

theorem store_broadcast_second_call_witness:
  "StoreBroadcastMessage (example_collab 1) example_round (broadcast5_msg ''B'' 5)
     = Returns (example_round\<lparr>BigGammaShare := [(''A'', 3), (''B'', 5)],
                              MessageBroadcasted := [(''B'', True)]\<rparr>, None)
   \<and> \<not> IsIdentity (example_collab 1) (7::int)
   \<and> (\<exists>r2. StoreBroadcastMessage (example_collab 1)
          (example_round\<lparr>BigGammaShare := [(''A'', 3), (''B'', 5)],
                         MessageBroadcasted := [(''B'', True)]\<rparr>) (broadcast5_msg ''B'' 7)
            = Returns (r2, None)
        \<and> map_of (BigGammaShare r2) ''B'' = Some 7
        \<and> MessageBroadcasted r2 = [(''B'', True)]
        \<and> map_of (BigGammaShare r2) ''A'' = Some 3)"
proof -
  let ?r1 = "example_round\<lparr>BigGammaShare := [(''A'', 3), (''B'', 5)],
                           MessageBroadcasted := [(''B'', True)]\<rparr>"
  have first: "StoreBroadcastMessage (example_collab 1) example_round (broadcast5_msg ''B'' 5)
     = Returns (?r1, None)"
    by (simp add: store_msg_simps example_collab_def example_round_def)
  have nid: "\<not> IsIdentity (example_collab 1) (7::int)"
    by (simp add: example_collab_def)
  have A: "''A'' \<noteq> ''B''" by simp
  from store_broadcast_second_call [OF first nid]
  obtain r2 where r2: "StoreBroadcastMessage (example_collab 1) ?r1 (broadcast5_msg ''B'' 7)
            = Returns (r2, None)"
      "map_of (BigGammaShare r2) ''B'' = Some 7"
      "MessageBroadcasted r2 = MessageBroadcasted ?r1"
      "\<forall>k. k \<noteq> ''B'' \<longrightarrow> map_of (BigGammaShare r2) k = map_of (BigGammaShare ?r1) k"
    by blast
  from r2(4) [rule_format, OF A]
  have a3: "map_of (BigGammaShare r2) ''A'' = Some 3" by (simp add: example_round_def)
  from r2(3) have mb: "MessageBroadcasted r2 = [(''B'', True)]" by simp
  from first nid r2(1,2) mb a3 show ?thesis
    by (intro conjI exI [of _ r2]) assumption+
qed

lemma Finalize_short:
  "int (length (MessageBroadcasted r)) \<noteq> int (helper_N r) - 1 \<Longrightarrow>
     Finalize env r out = (SessionNil, Some ErrNotEnoughMessages, out)"
  by (simp add: Finalize_def)

lemma Finalize_full:
  "int (length (MessageBroadcasted r)) = int (helper_N r) - 1 \<Longrightarrow>
     Finalize env r out =
       (let Gamma_v = sum_loop (Add env) (NewPoint env) (BigGammaShare r);
            BigDeltaShare_v = Act env (KShare r) Gamma_v;
            proofLog = NewProof env (HashForID env (SelfID r))
              \<lparr>pub_E = map_of (ElGamalK r) (SelfID r),
               pub_ElGamalPublic = map_of (ElGamal r) (SelfID r),
               pub_Base = Gamma_v,
               pub_Y = BigDeltaShare_v\<rparr>
              \<lparr>priv_Y = KShare r, priv_Lambda = ElGamalKNonce r\<rparr>;
            sent = BroadcastMessage env out \<lparr>BigDeltaShare = BigDeltaShare_v, Proof = proofLog\<rparr>
        in (case fst sent of
              Some err \<Rightarrow> (Session5 r, Some err, snd sent)
            | None \<Rightarrow>
                (Session6 \<lparr>presign5_of = r,
                           Gamma = Gamma_v,
                           BigDeltaShares = [(SelfID r, BigDeltaShare_v)],
                           MessageBroadcasted6 = []\<rparr>,
                 None, snd sent)))"
  by (simp add: Finalize_def)

text \<open>
  Claim C4. Provided the helper's \<open>BroadcastMessage\<close> itself never reports
  \<open>ErrNotEnoughMessages\<close>, \<open>Finalize\<close> fails with \<open>ErrNotEnoughMessages\<close> exactly when the
  number of senders in \<open>MessageBroadcasted\<close> differs from \<open>N - 1\<close>; in that case it returns
  no next session and leaves the output channel untouched, so the round stays round 5; and
  \<open>CanFinalize\<close> holds exactly when the number equals \<open>N - 1\<close>.
\<close>

theorem finalize_not_enough_messages:
  assumes ext: "\<forall>out m. fst (BroadcastMessage env out m) \<noteq> Some ErrNotEnoughMessages"
  shows "(fst (snd (Finalize env r out)) = Some ErrNotEnoughMessages
            \<longleftrightarrow> int (length (MessageBroadcasted r)) \<noteq> int (helper_N r) - 1)
       \<and> (fst (snd (Finalize env r out)) = Some ErrNotEnoughMessages
            \<longrightarrow> Finalize env r out = (SessionNil, Some ErrNotEnoughMessages, out))
       \<and> (CanFinalize r \<longleftrightarrow> int (length (MessageBroadcasted r)) = int (helper_N r) - 1)"
proof -
  have a: "fst (snd (Finalize env r out)) \<noteq> Some ErrNotEnoughMessages"
    if eq: "int (length (MessageBroadcasted r)) = int (helper_N r) - 1"
    using ext by (auto simp add: Finalize_full [OF eq] Let_def split: option.split)
  have b: "Finalize env r out = (SessionNil, Some ErrNotEnoughMessages, out)"
    if "int (length (MessageBroadcasted r)) \<noteq> int (helper_N r) - 1"
    using that by (rule Finalize_short)
  show ?thesis
  proof (cases "int (length (MessageBroadcasted r)) = int (helper_N r) - 1")
    case True
    with a show ?thesis by (simp add: CanFinalize_def)
  next
    case False
    with b show ?thesis by (simp add: CanFinalize_def)
  qed
qed

theorem finalize_not_enough_messages_witness:
  "(\<forall>out m. fst (BroadcastMessage (example_collab 1) out m) \<noteq> Some ErrNotEnoughMessages)
   \<and> Finalize (example_collab 1) (example_round\<lparr>MessageBroadcasted := [(''B'', True)]\<rparr>) []
        = (SessionNil, Some ErrNotEnoughMessages, [])
   \<and> \<not> CanFinalize (example_round\<lparr>MessageBroadcasted := [(''B'', True)]\<rparr>)
   \<and> fst (snd (Finalize (example_collab 1)
         (example_round\<lparr>MessageBroadcasted := [(''B'', True), (''C'', True)]\<rparr>) [])) \<noteq> Some ErrNotEnoughMessages
   \<and> CanFinalize (example_round\<lparr>MessageBroadcasted := [(''B'', True), (''C'', True)]\<rparr>)"
proof -
  have h: "\<forall>out m. fst (BroadcastMessage (example_collab 1) out m) \<noteq> Some ErrNotEnoughMessages"
    by (simp add: example_collab_def)
  have l1: "int (length (MessageBroadcasted (example_round\<lparr>MessageBroadcasted := [(''B'', True)]\<rparr>)))
      \<noteq> int (helper_N (example_round\<lparr>MessageBroadcasted := [(''B'', True)]\<rparr>)) - 1"
    by (simp add: example_round_def)
  have l2: "int (length (MessageBroadcasted (example_round\<lparr>MessageBroadcasted := [(''B'', True), (''C'', True)]\<rparr>)))
      = int (helper_N (example_round\<lparr>MessageBroadcasted := [(''B'', True), (''C'', True)]\<rparr>)) - 1"
    by (simp add: example_round_def)
  note t1 = finalize_not_enough_messages [OF h, of "example_round\<lparr>MessageBroadcasted := [(''B'', True)]\<rparr>" "[]"]
  note t2 = finalize_not_enough_messages [OF h,
      of "example_round\<lparr>MessageBroadcasted := [(''B'', True), (''C'', True)]\<rparr>" "[]"]
  from t1 l1 have c1: "Finalize (example_collab 1) (example_round\<lparr>MessageBroadcasted := [(''B'', True)]\<rparr>) []
        = (SessionNil, Some ErrNotEnoughMessages, [])" by simp
  from t1 l1 have c2: "\<not> CanFinalize (example_round\<lparr>MessageBroadcasted := [(''B'', True)]\<rparr>)" by simp
  from t2 l2 have c3: "fst (snd (Finalize (example_collab 1)
         (example_round\<lparr>MessageBroadcasted := [(''B'', True), (''C'', True)]\<rparr>) [])) \<noteq> Some ErrNotEnoughMessages"
    by simp
  from t2 l2 have c4: "CanFinalize (example_round\<lparr>MessageBroadcasted := [(''B'', True), (''C'', True)]\<rparr>)" by simp
  from h c1 c2 c3 c4 show ?thesis by (intro conjI)
qed

lemma sum_loop_fold: "sum_loop add G es = fold (\<lambda>e acc. add acc (snd e)) es G"
  by (induction add G es rule: sum_loop.induct) simp_all

lemma sum_loop_perm:
  assumes comm: "\<forall>a b. add a b = add b a"
    and assoc: "\<forall>a b c. add (add a b) c = add a (add b c)"
    and perm: "mset es = mset es'"
  shows "sum_loop add G es = sum_loop add G es'"
proof -
  have "fold (\<lambda>e acc. add acc (snd e)) es = fold (\<lambda>e acc. add acc (snd e)) es'"
  proof (rule fold_multiset_equiv [OF _ perm])
    fix x y :: "party_id \<times> 'a"
    show "(\<lambda>acc. add acc (snd x)) \<circ> (\<lambda>acc. add acc (snd y))
        = (\<lambda>acc. add acc (snd y)) \<circ> (\<lambda>acc. add acc (snd x))"
    proof
      fix acc
      have "add (add acc (snd y)) (snd x) = add acc (add (snd y) (snd x))" using assoc by simp
      also have "\<dots> = add acc (add (snd x) (snd y))" using comm by simp
      also have "\<dots> = add (add acc (snd x)) (snd y)" using assoc by simp
      finally show "((\<lambda>acc. add acc (snd x)) \<circ> (\<lambda>acc. add acc (snd y))) acc
        = ((\<lambda>acc. add acc (snd y)) \<circ> (\<lambda>acc. add acc (snd x))) acc" by simp
    qed
  qed
  then show ?thesis by (simp add: sum_loop_fold)
qed

lemma foldr_add_shift:
  assumes comm: "\<forall>a b. add a b = add b a"
    and assoc: "\<forall>a b c. add (add a b) c = add a (add b c)"
  shows "foldr add xs (add G g) = add g (foldr add xs G)"
proof (induction xs)
  case Nil
  show ?case using comm by simp
next
  case (Cons x xs)
  have "foldr add (x # xs) (add G g) = add x (add g (foldr add xs G))" using Cons by simp
  also have "\<dots> = add (add x g) (foldr add xs G)" using assoc by simp
  also have "\<dots> = add (add g x) (foldr add xs G)" using comm by simp
  also have "\<dots> = add g (add x (foldr add xs G))" using assoc by simp
  finally show ?case by simp
qed

lemma sum_loop_foldr:
  assumes comm: "\<forall>a b. add a b = add b a"
    and assoc: "\<forall>a b c. add (add a b) c = add a (add b c)"
  shows "sum_loop add G es = foldr add (map snd es) G"
proof (induction es arbitrary: G)
  case Nil
  show ?case by simp
next
  case (Cons e rest)
  obtain j GammaJ where e: "e = (j, GammaJ)" by (cases e)
  have "sum_loop add G (e # rest) = foldr add (map snd rest) (add G GammaJ)"
    using Cons by (simp add: e)
  also have "\<dots> = add GammaJ (foldr add (map snd rest) G)"
    by (rule foldr_add_shift [OF comm assoc])
  finally show ?case by (simp add: e)
qed

text \<open>
  Claim C5. In a commutative and associative group, when \<open>Finalize\<close> succeeds: \<open>\<Gamma>\<close> is
  the sum of all stored \<open>BigGammaShare\<close> points, and every iteration order of the map gives
  that same sum; \<open>\<Delta>\<close> is \<open>KShare\<close> acting on \<open>\<Gamma>\<close>; the message handed to
  \<open>BroadcastMessage\<close> is \<open>\<Delta>\<close> with the elog proof made for
  \<open>(ElGamalK[self], ElGamal[self], \<Gamma>, \<Delta>)\<close> and the witness \<open>(KShare, ElGamalKNonce)\<close>;
  and the session returned is a round 6 holding \<open>\<Gamma>\<close>, the own \<open>\<Delta>\<close>, and an empty
  \<open>MessageBroadcasted\<close>.
\<close>

theorem finalize_success:
  assumes comm: "\<forall>a b. Add env a b = Add env b a"
    and assoc: "\<forall>a b c. Add env (Add env a b) c = Add env a (Add env b c)"
    and ok: "Finalize env r out = (sess, None, out')"
  shows "\<exists>r6 G D.
       G = foldr (Add env) (map snd (BigGammaShare r)) (NewPoint env)
     \<and> (\<forall>es. mset es = mset (BigGammaShare r) \<longrightarrow> sum_loop (Add env) (NewPoint env) es = G)
     \<and> D = Act env (KShare r) G
     \<and> BroadcastMessage env out
           \<lparr>BigDeltaShare = D,
            Proof = NewProof env (HashForID env (SelfID r))
              \<lparr>pub_E = map_of (ElGamalK r) (SelfID r),
               pub_ElGamalPublic = map_of (ElGamal r) (SelfID r),
               pub_Base = G, pub_Y = D\<rparr>
              \<lparr>priv_Y = KShare r, priv_Lambda = ElGamalKNonce r\<rparr>\<rparr> = (None, out')
     \<and> sess = Session6 r6
     \<and> presign5_of r6 = r
     \<and> Gamma r6 = G
     \<and> BigDeltaShares r6 = [(SelfID r, D)]
     \<and> MessageBroadcasted6 r6 = []"
proof -
  let ?G = "foldr (Add env) (map snd (BigGammaShare r)) (NewPoint env)"
  let ?D = "Act env (KShare r) ?G"
  have loop: "sum_loop (Add env) (NewPoint env) (BigGammaShare r) = ?G"
    by (rule sum_loop_foldr [OF comm assoc])
  have order: "\<forall>es. mset es = mset (BigGammaShare r) \<longrightarrow> sum_loop (Add env) (NewPoint env) es = ?G"
    using sum_loop_perm [OF comm assoc] loop by metis
  have eq: "int (length (MessageBroadcasted r)) = int (helper_N r) - 1"
    using ok by (cases "int (length (MessageBroadcasted r)) = int (helper_N r) - 1")
      (simp_all add: Finalize_short)
  let ?m = "\<lparr>BigDeltaShare = ?D,
            Proof = NewProof env (HashForID env (SelfID r))
              \<lparr>pub_E = map_of (ElGamalK r) (SelfID r),
               pub_ElGamalPublic = map_of (ElGamal r) (SelfID r),
               pub_Base = ?G, pub_Y = ?D\<rparr>
              \<lparr>priv_Y = KShare r, priv_Lambda = ElGamalKNonce r\<rparr>\<rparr>"
  let ?r6 = "\<lparr>presign5_of = r, Gamma = ?G, BigDeltaShares = [(SelfID r, ?D)],
               MessageBroadcasted6 = []\<rparr>"
  have F: "Finalize env r out =
     (case fst (BroadcastMessage env out ?m) of
        Some err \<Rightarrow> (Session5 r, Some err, snd (BroadcastMessage env out ?m))
      | None \<Rightarrow> (Session6 ?r6, None, snd (BroadcastMessage env out ?m)))"
    by (simp add: Finalize_full [OF eq] Let_def loop)
  from ok F have sent: "BroadcastMessage env out ?m = (None, out')" and sess: "sess = Session6 ?r6"
    by (auto split: option.splits simp: prod_eq_iff)
  show ?thesis
    apply (rule exI [of _ ?r6], rule exI [of _ ?G], rule exI [of _ ?D])
    using order sent sess by simp
qed

theorem finalize_success_witness:
  "(\<forall>a b. Add (example_collab 1) a b = Add (example_collab 1) b a)
   \<and> (\<forall>a b c. Add (example_collab 1) (Add (example_collab 1) a b) c
          = Add (example_collab 1) a (Add (example_collab 1) b c))
   \<and> (\<exists>r6. Finalize (example_collab 1)
          (example_round\<lparr>BigGammaShare := [(''A'', 3), (''B'', 5), (''C'', 7)],
                         MessageBroadcasted := [(''B'', True), (''C'', True)]\<rparr>) []
        = (Session6 r6, None,
           [\<lparr>BigDeltaShare = 30,
             Proof = \<lparr>pub_E = Some 11, pub_ElGamalPublic = Some 13, pub_Base = 15, pub_Y = 30\<rparr>\<rparr>])
      \<and> Gamma r6 = 15
      \<and> BigDeltaShares r6 = [(''A'', 30)]
      \<and> MessageBroadcasted6 r6 = []
      \<and> sum_loop (Add (example_collab 1)) (NewPoint (example_collab 1))
            [(''C'', 7), (''A'', 3), (''B'', 5)] = 15)"
proof -
  let ?r = "example_round\<lparr>BigGammaShare := [(''A'', 3), (''B'', 5), (''C'', 7)],
                         MessageBroadcasted := [(''B'', True), (''C'', True)]\<rparr>"
  let ?out = "[\<lparr>BigDeltaShare = 30,
             Proof = \<lparr>pub_E = Some 11, pub_ElGamalPublic = Some 13, pub_Base = 15, pub_Y = (30::int)\<rparr>\<rparr>]"
  have comm: "\<forall>a b. Add (example_collab 1) a b = Add (example_collab 1) b a"
    by (simp add: example_collab_def)
  have assoc: "\<forall>a b c. Add (example_collab 1) (Add (example_collab 1) a b) c
          = Add (example_collab 1) a (Add (example_collab 1) b c)"
    by (simp add: example_collab_def)
  have run: "Finalize (example_collab 1) ?r [] =
      (Session6 \<lparr>presign5_of = ?r, Gamma = 15, BigDeltaShares = [(''A'', 30)],
                  MessageBroadcasted6 = []\<rparr>, None, ?out)"
    by (simp add: Finalize_def example_collab_def example_round_def)
  have perm: "mset [(''C'', 7::int), (''A'', 3), (''B'', 5)] = mset (BigGammaShare ?r)"
    by (simp add: example_round_def)
  from finalize_success [OF comm assoc run]
  obtain r6 G D where
    G: "G = foldr (Add (example_collab 1)) (map snd (BigGammaShare ?r)) (NewPoint (example_collab 1))"
    and ord: "\<forall>es. mset es = mset (BigGammaShare ?r)
        \<longrightarrow> sum_loop (Add (example_collab 1)) (NewPoint (example_collab 1)) es = G"
    and D: "D = Act (example_collab 1) (KShare ?r) G"
    and s6: "Session6 \<lparr>presign5_of = ?r, Gamma = 15, BigDeltaShares = [(''A'', 30)],
                  MessageBroadcasted6 = []\<rparr> = Session6 r6"
    and g6: "Gamma r6 = G" and d6: "BigDeltaShares r6 = [(SelfID ?r, D)]"
    and m6: "MessageBroadcasted6 r6 = []"
    by blast
  have G15: "G = 15" using G by (simp add: example_collab_def example_round_def)
  have D30: "D = 30" using D G15 by (simp add: example_collab_def example_round_def)
  have self: "SelfID ?r = ''A''" by (simp add: example_round_def)
  from ord [rule_format, OF perm] G15
  have p: "sum_loop (Add (example_collab 1)) (NewPoint (example_collab 1))
            [(''C'', 7), (''A'', 3), (''B'', 5)] = 15" by simp
  from s6 have r6: "Finalize (example_collab 1) ?r [] = (Session6 r6, None, ?out)"
    using run by simp
  show ?thesis
    using comm assoc r6 g6 d6 m6 p G15 D30 self
    by (intro conjI exI [of _ r6]) simp_all
qed

section \<open>Properties of the Pedersen parameters\<close>

declare be_bytes.simps [simp del]

lemma be_bytes_15: "be_bytes 15 = [15]"
  by (simp add: be_bytes.simps [of 15] be_bytes.simps [of 0])

lemma validate_cases:
  "ValidateParameters n s t =
     (case (n, s, t) of
        (Some m, Some a, Some b) \<Rightarrow>
           if \<not> (1 \<le> a \<and> a \<le> m - 1 \<and> gcd a m = 1) \<or> \<not> (1 \<le> b \<and> b \<le> m - 1 \<and> gcd b m = 1)
           then Some PedersenErrNotValidModN
           else if a = b then Some PedersenErrSEqualT else None
      | _ \<Rightarrow> Some PedersenErrNilFields)"
  by (auto simp add: ValidateParameters_def IsValidNatModN_def is_in_unit_group_def
      split: option.splits)

text \<open>
  Claim C7. \<open>ValidateParameters\<close> answers in this order: \<open>NilFields\<close> when one of
  \<open>n\<close>, \<open>s\<close>, \<open>t\<close> is nil; otherwise \<open>NotValidModN\<close> (the specification's
  \<open>NotInUnitGroup\<close>) when \<open>s\<close> or \<open>t\<close> is outside \<open>[1, n-1]\<close> or not coprime to \<open>n\<close>;
  otherwise \<open>SEqualT\<close> when \<open>s = t\<close>; otherwise no error. In particular \<open>(N, 0, t)\<close> gives
  \<open>NotValidModN\<close>, and \<open>(N, s, s)\<close> gives \<open>SEqualT\<close> for \<open>s\<close> in the unit group.
\<close>

theorem validate_parameters_cascade:
  "((n = None \<or> s = None \<or> t = None) \<longrightarrow> ValidateParameters n s t = Some PedersenErrNilFields)
   \<and> ((\<not> (1 \<le> a \<and> a \<le> m - 1 \<and> gcd a m = 1) \<or> \<not> (1 \<le> b \<and> b \<le> m - 1 \<and> gcd b m = 1))
        \<longrightarrow> ValidateParameters (Some m) (Some a) (Some b) = Some PedersenErrNotValidModN)
   \<and> ((1 \<le> a \<and> a \<le> m - 1 \<and> gcd a m = 1) \<and> (1 \<le> b \<and> b \<le> m - 1 \<and> gcd b m = 1) \<and> a = b
        \<longrightarrow> ValidateParameters (Some m) (Some a) (Some b) = Some PedersenErrSEqualT)
   \<and> ((1 \<le> a \<and> a \<le> m - 1 \<and> gcd a m = 1) \<and> (1 \<le> b \<and> b \<le> m - 1 \<and> gcd b m = 1) \<and> a \<noteq> b
        \<longrightarrow> ValidateParameters (Some m) (Some a) (Some b) = None)
   \<and> ValidateParameters (Some m) (Some 0) (Some b) = Some PedersenErrNotValidModN
   \<and> ((1 \<le> a \<and> a \<le> m - 1 \<and> gcd a m = 1)
        \<longrightarrow> ValidateParameters (Some m) (Some a) (Some a) = Some PedersenErrSEqualT)"
proof -
  have nil: "ValidateParameters n s t = Some PedersenErrNilFields"
    if "n = None \<or> s = None \<or> t = None"
    using that by (auto simp add: validate_cases split: option.splits)
  have present: "ValidateParameters (Some m) (Some x) (Some y) =
       (if \<not> (1 \<le> x \<and> x \<le> m - 1 \<and> gcd x m = 1) \<or> \<not> (1 \<le> y \<and> y \<le> m - 1 \<and> gcd y m = 1)
        then Some PedersenErrNotValidModN
        else if x = y then Some PedersenErrSEqualT else None)" for x y
    by (simp add: validate_cases)
  have zero: "ValidateParameters (Some m) (Some 0) (Some b) = Some PedersenErrNotValidModN"
    by (simp add: present)
  show ?thesis
    using nil zero by (simp add: present)
qed

theorem validate_parameters_cascade_witness:
  "ValidateParameters None (Some 2) (Some 4) = Some PedersenErrNilFields
   \<and> ValidateParameters (Some 15) (Some 3) (Some 4) = Some PedersenErrNotValidModN
   \<and> ValidateParameters (Some 15) (Some 2) (Some 16) = Some PedersenErrNotValidModN
   \<and> ValidateParameters (Some 15) (Some 2) (Some 2) = Some PedersenErrSEqualT
   \<and> ValidateParameters (Some 15) (Some 2) (Some 4) = None
   \<and> ValidateParameters (Some 15) (Some 0) (Some 4) = Some PedersenErrNotValidModN"
proof -
  have g2: "gcd (2::nat) 15 = 1" and g4: "gcd (4::nat) 15 = 1" and g3: "gcd (3::nat) 15 \<noteq> 1"
    by (simp_all add: gcd_nat.simps [of 2 15] gcd_nat.simps [of 4 15] gcd_nat.simps [of 3 15]
        gcd_nat.simps [of 15 2] gcd_nat.simps [of 15 3] gcd_nat.simps [of 15 4]
        gcd_nat.simps [of 3 0] gcd_nat.simps [of 4 3] gcd_nat.simps [of 3 1] gcd_nat.simps [of 2 1])
  note t1 = validate_parameters_cascade [of None "Some 2" "Some 4" 3 15 4]
  note t2 = validate_parameters_cascade [of None "Some 2" "Some 4" 2 15 16]
  note t3 = validate_parameters_cascade [of None "Some 2" "Some 4" 2 15 2]
  note t4 = validate_parameters_cascade [of None "Some 2" "Some 4" 2 15 4]
  from t1 have c1: "ValidateParameters None (Some 2) (Some 4) = Some PedersenErrNilFields" by simp
  from t1 g3 have c2: "ValidateParameters (Some 15) (Some 3) (Some 4) = Some PedersenErrNotValidModN"
    by simp
  from t2 have c3: "ValidateParameters (Some 15) (Some 2) (Some 16) = Some PedersenErrNotValidModN"
    by simp
  from t3 g2 have c4: "ValidateParameters (Some 15) (Some 2) (Some 2) = Some PedersenErrSEqualT"
    by simp
  from t4 g2 g4 have c5: "ValidateParameters (Some 15) (Some 2) (Some 4) = None" by simp
  from t4 have c6: "ValidateParameters (Some 15) (Some 0) (Some 4) = Some PedersenErrNotValidModN"
    by simp
  from c1 c2 c3 c4 c5 c6 show ?thesis by (intro conjI)
qed

section \<open>Properties of the Paillier keys\<close>

lemma GetKey_error_nil: "GetKey cd mgr opts = Returns (k, err) \<Longrightarrow> err = None"
  by (auto simp add: GetKey_def obind_def split: prod.splits option.splits outcome.splits)

text \<open>
  Claim C2 fails on the code. With a keystore whose \<open>Get\<close> reports an error, and with a
  stored blob whose modulus does not decode (\<open>fromBytes\<close> reports the error), \<open>GetKey\<close>
  returns the zero key and a nil error.
\<close>

theorem GetKey_swallows_errors:
  "GetKey be_codec \<lparr>keystore_Get = (\<lambda>opts. (Slice [] 0, Some (ErrExternal ''key not found'')))\<rparr> ()
     = Returns (PaillierKey_zero, None)
   \<and> GetKey (be_codec\<lparr>Modulus_UnmarshalBinary := (\<lambda>bs. Inl (ErrExternal ''invalid modulus''))\<rparr>)
        \<lparr>keystore_Get = (\<lambda>opts. (Slice [1, 0, 15, 0, 0] 5, None))\<rparr> ()
     = Returns (PaillierKey_zero, None)
   \<and> fromBytes (be_codec\<lparr>Modulus_UnmarshalBinary := (\<lambda>bs. Inl (ErrExternal ''invalid modulus''))\<rparr>)
        (Slice [1, 0, 15, 0, 0] 5)
     = Returns (PaillierKey_zero, Some (ErrExternal ''invalid modulus''))"
  by (simp add: GetKey_def fromBytes_def obind_def reslice_def LittleEndian_Uint16_def
      slice_bytes_def be_codec_def)

text \<open>
  Claim C3 fails on the code. The public-only key with \<open>N = 15\<close> is encoded in three bytes,
  with no secret-key length after the modulus; \<open>fromBytes\<close> reads that length all the same,
  at \<open>data[3:5]\<close>. On a slice of capacity 3 this panics; with spare capacity it reads the
  bytes behind the encoding and decodes whatever they hold.
\<close>

theorem fromBytes_public_only_out_of_range:
  "Bytes be_codec \<lparr>secretKey = None, publicKey = Some 15\<rparr> = Returns (Inr [1, 0, 15])
   \<and> fromBytes be_codec (exact_slice [1, 0, 15]) = Panics
   \<and> fromBytes be_codec (Slice [1, 0, 15, 0, 0] 3)
       = Returns (\<lparr>secretKey = None, publicKey = Some 15\<rparr>, None)
   \<and> fromBytes be_codec (Slice [1, 0, 15, 1, 0, 9] 3)
       = Returns (\<lparr>secretKey = Some [9], publicKey = Some 15\<rparr>, None)"
  by (simp add: Bytes_def fromBytes_def obind_def reslice_def LittleEndian_Uint16_def
      LittleEndian_PutUint16_def slice_bytes_def exact_slice_def be_codec_def be_bytes_15
      be_nat_def)

section \<open>Properties of the transcript hash\<close>

lemma put64_byte:
  assumes "k \<le> 56"
  shows "(ucast (drop_bit k (of_nat n :: 64 word)) :: 8 word) = of_nat (n div 2 ^ k mod 256)"
proof (rule bit_word_eqI)
  fix i assume "i < LENGTH(8)"
  then have i: "i < 8" by simp
  have "n div 2 ^ k mod 256 = take_bit 8 (drop_bit k n)"
    by (simp add: take_bit_eq_mod drop_bit_eq_div)
  with i assms show "bit (ucast (drop_bit k (of_nat n :: 64 word)) :: 8 word) i
      = bit (of_nat (n div 2 ^ k mod 256) :: 8 word) i"
    by (simp add: bit_simps)
qed

lemma PutUint64_u64_be: "BigEndian_PutUint64 (of_nat n) = u64_be n"
proof -
  have p: "(256::nat) ^ 7 = 2 ^ 56" "(256::nat) ^ 6 = 2 ^ 48" "(256::nat) ^ 5 = 2 ^ 40"
    "(256::nat) ^ 4 = 2 ^ 32" "(256::nat) ^ 3 = 2 ^ 24" "(256::nat) ^ 2 = 2 ^ 16"
    "(256::nat) ^ 1 = 2 ^ 8" "(256::nat) ^ 0 = 2 ^ 0"
    by simp_all
  have q: "(ucast (of_nat n :: 64 word) :: 8 word) = of_nat (n div 2 ^ 0 mod 256)"
    using put64_byte [of 0 n] by simp
  show ?thesis
    unfolding BigEndian_PutUint64_def u64_be_def list.map p
    by (simp only: put64_byte q)
qed


lemma string_bytes_paren: "string_bytes ''('' = [40]" "string_bytes '')'' = [41]"
  by (simp_all add: string_bytes_def)

lemma write_frame:
  "h_written (writeBytesWithDomain hash d) = h_written hash @ frame (TheDomain d) (Bytes_of d)"
  by (simp add: writeBytesWithDomain_def h_Write_def Let_def frame_def PutUint64_u64_be
      string_bytes_paren)

lemma writes_frames:
  "h_written (foldl writeBytesWithDomain hash ws)
     = h_written hash @ concat (map (\<lambda>d. frame (TheDomain d) (Bytes_of d)) ws)"
  by (induction ws arbitrary: hash) (simp_all add: write_frame)

text \<open>
  Claim C10. A write appends to the hasher input exactly
  \<open>"(" || u64_be(len(domain)) || domain || u64_be(len(data)) || data || ")"\<close>. So, when the
  hasher's output stream delivers at least 32 bytes, two transcripts whose hashers have
  received the same bytes so far, and that then receive the same writes, return the same
  \<open>Sum\<close>, of 32 bytes.
\<close>

theorem transcript_framing_deterministic:
  assumes long: "\<forall>x. DigestLengthBytes \<le> length (digest x)"
  shows "h_written (writeBytesWithDomain hash d)
           = h_written hash @ [40] @ u64_be (length (TheDomain d)) @ string_bytes (TheDomain d)
               @ u64_be (length (Bytes_of d)) @ Bytes_of d @ [41]
       \<and> (h_written hash1 = h_written hash2 \<longrightarrow>
            (\<exists>out. Sum digest (foldl writeBytesWithDomain hash1 ws) = Returns out
                 \<and> Sum digest (foldl writeBytesWithDomain hash2 ws) = Returns out
                 \<and> length out = 32))"
proof (intro conjI impI)
  show "h_written (writeBytesWithDomain hash d)
           = h_written hash @ [40] @ u64_be (length (TheDomain d)) @ string_bytes (TheDomain d)
               @ u64_be (length (Bytes_of d)) @ Bytes_of d @ [41]"
    by (simp add: write_frame frame_def)
next
  assume same: "h_written hash1 = h_written hash2"
  let ?w = "h_written hash1 @ concat (map (\<lambda>d. frame (TheDomain d) (Bytes_of d)) ws)"
  have w1: "h_written (foldl writeBytesWithDomain hash1 ws) = ?w" by (rule writes_frames)
  have w2: "h_written (foldl writeBytesWithDomain hash2 ws) = ?w"
    by (simp add: writes_frames same)
  from long have len: "DigestLengthBytes \<le> length (digest ?w)" by blast
  let ?out = "take DigestLengthBytes (digest ?w)"
  have s1: "Sum digest (foldl writeBytesWithDomain hash1 ws) = Returns ?out"
    using len by (simp add: Sum_def w1 Let_def)
  have s2: "Sum digest (foldl writeBytesWithDomain hash2 ws) = Returns ?out"
    using len by (simp add: Sum_def w2 Let_def)
  have l: "length ?out = 32" using len by (simp add: DigestLengthBytes_def)
  from s1 s2 l show "\<exists>out. Sum digest (foldl writeBytesWithDomain hash1 ws) = Returns out
                 \<and> Sum digest (foldl writeBytesWithDomain hash2 ws) = Returns out
                 \<and> length out = 32" by blast
qed

theorem transcript_framing_deterministic_witness:
  "(\<forall>x :: byte list. DigestLengthBytes \<le> length (replicate 32 (of_nat (length x) :: byte)))
   \<and> h_written Hash_New = h_written (Hash_New\<lparr>h_state := [\<lparr>TheDomain = ''ab'', Bytes_of = [1, 2, 3]\<rparr>]\<rparr>)
   \<and> h_written (writeBytesWithDomain Hash_New \<lparr>TheDomain = ''ab'', Bytes_of = [1, 2, 3]\<rparr>)
       = [40, 0, 0, 0, 0, 0, 0, 0, 2, 97, 98, 0, 0, 0, 0, 0, 0, 0, 3, 1, 2, 3, 41]
   \<and> (\<exists>out. Sum (\<lambda>x. replicate 32 (of_nat (length x)))
               (foldl writeBytesWithDomain Hash_New [\<lparr>TheDomain = ''ab'', Bytes_of = [1, 2, 3]\<rparr>])
             = Returns out
          \<and> Sum (\<lambda>x. replicate 32 (of_nat (length x)))
               (foldl writeBytesWithDomain
                  (Hash_New\<lparr>h_state := [\<lparr>TheDomain = ''ab'', Bytes_of = [1, 2, 3]\<rparr>]\<rparr>)
                  [\<lparr>TheDomain = ''ab'', Bytes_of = [1, 2, 3]\<rparr>])
             = Returns out
          \<and> length out = 32)"
proof -
  let ?dg = "\<lambda>x :: byte list. replicate 32 (of_nat (length x) :: byte)"
  let ?d = "\<lparr>TheDomain = ''ab'', Bytes_of = [1, 2, 3]\<rparr>"
  have long: "\<forall>x. DigestLengthBytes \<le> length (?dg x)" by (simp add: DigestLengthBytes_def)
  have same: "h_written Hash_New = h_written (Hash_New\<lparr>h_state := [?d]\<rparr>)" by simp
  note t = transcript_framing_deterministic [OF long, of Hash_New ?d Hash_New
      "Hash_New\<lparr>h_state := [?d]\<rparr>" "[?d]"]
  from t have a: "h_written (writeBytesWithDomain Hash_New ?d)
       = [40, 0, 0, 0, 0, 0, 0, 0, 2, 97, 98, 0, 0, 0, 0, 0, 0, 0, 3, 1, 2, 3, 41]"
    by (simp add: Hash_New_def u64_be_def string_bytes_def)
  from t same have b: "\<exists>out. Sum ?dg (foldl writeBytesWithDomain Hash_New [?d]) = Returns out
          \<and> Sum ?dg (foldl writeBytesWithDomain (Hash_New\<lparr>h_state := [?d]\<rparr>) [?d]) = Returns out
          \<and> length out = 32" by blast
  from long same a b show ?thesis by (intro conjI)
qed

section \<open>Length prefixes, slices, and the encoding of a public-only key\<close>

lemma Uint16_PutUint16:
  "or (ucast (ucast v :: byte)) (push_bit 8 (ucast (ucast (drop_bit 8 v) :: byte))) = (v :: 16 word)"
  by (rule bit_word_eqI) (auto simp add: bit_simps)

lemma read_u16:
  "LittleEndian_Uint16 (Slice (LittleEndian_PutUint16 v @ rest) 2) = Returns v"
  by (simp add: LittleEndian_Uint16_def LittleEndian_PutUint16_def slice_bytes_def Uint16_PutUint16)

lemma obind_simps: "obind (Returns v) f = f v" "obind Panics f = Panics"
  by (simp_all add: obind_def)

text \<open>
  The panic of \<open>fromBytes\<close> on the encoding of a public-only key does not depend on the
  codec or on the key: it happens for every modulus whose encoding has between 1 and 65531
  bytes, when the data sits in a slice with no spare capacity.
\<close>

lemma fromBytes_exact_public_panics:
  assumes pk: "publicKey k = Some nv" and sk: "secretKey k = None"
    and enc: "Modulus_MarshalBinary cd nv = Inr nb"
    and dec: "Modulus_UnmarshalBinary cd nb = Inr nv'"
    and len: "0 < length nb" "length nb < 65532"
  shows "Bytes cd k = Returns (Inr (LittleEndian_PutUint16 (of_nat (length nb)) @ nb))
       \<and> fromBytes cd (exact_slice (LittleEndian_PutUint16 (of_nat (length nb)) @ nb)) = Panics"
proof -
  let ?nl = "of_nat (length nb) :: 16 word"
  let ?data = "exact_slice (LittleEndian_PutUint16 ?nl @ nb)"
  have u: "unat ?nl = length nb" using len by (simp add: unat_of_nat)
  have nz: "?nl \<noteq> 0" using u len by (metis less_numeral_extra(3) unat_0)
  have u2: "unat (?nl + 2) = length nb + 2" using u len by (simp add: unat_word_ariths)
  have u4: "unat (?nl + 4) = length nb + 4" using u len by (simp add: unat_word_ariths)
  have l2: "length (LittleEndian_PutUint16 ?nl) = 2" by (simp add: LittleEndian_PutUint16_def)
  have b: "Bytes cd k = Returns (Inr (LittleEndian_PutUint16 ?nl @ nb))"
    by (simp add: Bytes_def pk sk enc Let_def)
  have r0: "reslice ?data 0 2 = Returns (Slice (LittleEndian_PutUint16 ?nl @ nb) 2)"
    by (simp add: reslice_def exact_slice_def l2)
  have r1: "reslice ?data 2 (unat (?nl + 2)) = Returns (Slice nb (length nb))"
    by (simp add: reslice_def exact_slice_def l2 u2)
  have r2: "reslice ?data (unat (?nl + 2)) (unat (?nl + 4)) = Panics"
    by (simp add: reslice_def exact_slice_def l2 u2 u4)
  have sb: "slice_bytes (Slice nb (length nb)) = nb" by (simp add: slice_bytes_def)
  have "fromBytes cd ?data = Panics"
    unfolding fromBytes_def
    by (simp only: r0 obind_simps read_u16 nz if_False r1 sb dec sum.case r2)
  with b show ?thesis by simp
qed

section \<open>Properties of the Pedersen wire format\<close>

lemma PutUint16_u16_le: "LittleEndian_PutUint16 (of_nat n) = u16_le n"
proof -
  have a: "(ucast (of_nat n :: 16 word) :: byte) = of_nat (n mod 256)"
  proof (rule bit_word_eqI)
    fix i assume "i < LENGTH(8)"
    then have i: "i < 8" by simp
    have "n mod 256 = take_bit 8 n" by (simp add: take_bit_eq_mod)
    with i show "bit (ucast (of_nat n :: 16 word) :: byte) i = bit (of_nat (n mod 256) :: byte) i"
      by (simp add: bit_simps)
  qed
  have b: "(ucast (drop_bit 8 (of_nat n :: 16 word)) :: byte) = of_nat (n div 256 mod 256)"
  proof (rule bit_word_eqI)
    fix i assume "i < LENGTH(8)"
    then have i: "i < 8" by simp
    have "n div 256 mod 256 = take_bit 8 (drop_bit 8 n)"
      by (simp add: take_bit_eq_mod drop_bit_eq_div)
    with i show "bit (ucast (drop_bit 8 (of_nat n :: 16 word)) :: byte) i
        = bit (of_nat (n div 256 mod 256) :: byte) i"
      by (simp add: bit_simps)
  qed
  show ?thesis by (simp add: LittleEndian_PutUint16_def u16_le_def a b)
qed

lemma length_PutUint16: "length (LittleEndian_PutUint16 v) = 2"
  by (simp add: LittleEndian_PutUint16_def)

lemma reslice_mid:
  assumes "lo = length xs" and "hi = length xs + length ys"
  shows "reslice (Slice (xs @ ys @ zs) n) lo hi = Returns (Slice (ys @ zs) (length ys))"
  using assms by (simp add: reslice_def)

lemma slice_bytes_prefix: "slice_bytes (Slice (ys @ zs) (length ys)) = ys"
  by (simp add: slice_bytes_def)

lemma read_u16':
  "LittleEndian_Uint16 (Slice (LittleEndian_PutUint16 v @ rest) (length (LittleEndian_PutUint16 v))) = Returns v"
  by (simp add: length_PutUint16 read_u16)

lemma unat16: "n < 65536 \<Longrightarrow> unat (of_nat n :: 16 word) = n"
  by (simp add: unat_of_nat)

lemma unmarshal_prefix:
  fixes nb sb tb :: "byte list"
  defines "nlw \<equiv> of_nat (length nb) :: 16 word"
    and "slw \<equiv> of_nat (length sb) :: 16 word"
    and "tlw \<equiv> of_nat (length tb) :: 16 word"
  defines "wire \<equiv> LittleEndian_PutUint16 nlw @ nb @ LittleEndian_PutUint16 slw @ sb
                    @ LittleEndian_PutUint16 tlw @ tb"
  assumes size: "6 + length nb + length sb \<le> 65535"
  shows "UnmarshalBiinary cd p (Slice (wire @ spare) k) =
     obind (reslice (Slice (wire @ spare) k) (2 + length nb + 2 + length sb + 2)
              (unat (of_nat (2 + length nb + 2 + length sb + 2 + length tb) :: 16 word)))
       (\<lambda>tbs.
         case Modulus_UnmarshalBinary cd nb of
           Inl err \<Rightarrow> Returns (p, Some err)
         | Inr nv \<Rightarrow>
            (case Nat_UnmarshalBinary cd sb of
               Inl err \<Rightarrow> Returns (p\<lparr>p_n := Some nv\<rparr>, Some err)
             | Inr sv \<Rightarrow>
                (case Nat_UnmarshalBinary cd (slice_bytes tbs) of
                   Inl err \<Rightarrow> Returns (p\<lparr>p_n := Some nv, p_s := Some sv\<rparr>, Some err)
                 | Inr tv \<Rightarrow>
                     Returns (p\<lparr>p_n := Some nv, p_s := Some sv, p_t := Some tv\<rparr>, None))))"
proof -
  let ?P = LittleEndian_PutUint16
  let ?data = "Slice (wire @ spare) k"
  have i1: "unat (2 + nlw) = 2 + length nb"
  proof -
    have "2 + nlw = (of_nat (2 + length nb) :: 16 word)" by (simp add: nlw_def)
    then show ?thesis using size by (simp only: unat16)
  qed
  have i2: "unat (2 + nlw + 2) = 2 + length nb + 2"
  proof -
    have "2 + nlw + 2 = (of_nat (2 + length nb + 2) :: 16 word)" by (simp add: nlw_def)
    then show ?thesis using size by (simp only: unat16)
  qed
  have i3: "unat (2 + nlw + 2 + slw) = 2 + length nb + 2 + length sb"
  proof -
    have "2 + nlw + 2 + slw = (of_nat (2 + length nb + 2 + length sb) :: 16 word)"
      by (simp add: nlw_def slw_def)
    then show ?thesis using size by (simp only: unat16)
  qed
  have i4: "unat (2 + nlw + 2 + slw + 2) = 2 + length nb + 2 + length sb + 2"
  proof -
    have "2 + nlw + 2 + slw + 2 = (of_nat (2 + length nb + 2 + length sb + 2) :: 16 word)"
      by (simp add: nlw_def slw_def)
    then show ?thesis using size by (simp only: unat16)
  qed
  have w5: "2 + nlw + 2 + slw + 2 + tlw
        = (of_nat (2 + length nb + 2 + length sb + 2 + length tb) :: 16 word)"
    by (simp add: nlw_def slw_def tlw_def)
  have r0: "reslice ?data 0 2 = Returns (Slice (?P nlw @ nb @ ?P slw @ sb @ ?P tlw @ tb @ spare) (length (?P nlw)))"
    by (simp add: reslice_def wire_def length_PutUint16)
  have r1: "reslice ?data 2 (unat (2 + nlw)) = Returns (Slice (nb @ ?P slw @ sb @ ?P tlw @ tb @ spare) (length nb))"
    unfolding i1 by (simp add: reslice_def wire_def length_PutUint16)
  have r2: "reslice ?data (unat (2 + nlw)) (unat (2 + nlw + 2))
      = Returns (Slice (?P slw @ sb @ ?P tlw @ tb @ spare) (length (?P slw)))"
    unfolding i1 i2 by (simp add: reslice_def wire_def length_PutUint16)
  have r3: "reslice ?data (unat (2 + nlw + 2)) (unat (2 + nlw + 2 + slw))
      = Returns (Slice (sb @ ?P tlw @ tb @ spare) (length sb))"
    unfolding i2 i3 by (simp add: reslice_def wire_def length_PutUint16)
  have r4: "reslice ?data (unat (2 + nlw + 2 + slw)) (2 + length nb + 2 + length sb + 2)
      = Returns (Slice (?P tlw @ tb @ spare) (length (?P tlw)))"
    unfolding i3 by (simp add: reslice_def wire_def length_PutUint16)
  show ?thesis
    unfolding UnmarshalBiinary_def
    by (simp only: r0 obind_simps read_u16' r1 r2 r3 r4 slice_bytes_prefix i4 w5)
qed

lemma unmarshal_wire:
  fixes nb sb tb :: "byte list"
  assumes size: "6 + length nb + length sb + length tb \<le> 65535"
  shows "UnmarshalBiinary cd p
      (Slice ((LittleEndian_PutUint16 (of_nat (length nb)) @ nb
               @ LittleEndian_PutUint16 (of_nat (length sb)) @ sb
               @ LittleEndian_PutUint16 (of_nat (length tb)) @ tb) @ spare) k) =
     (case Modulus_UnmarshalBinary cd nb of
         Inl err \<Rightarrow> Returns (p, Some err)
       | Inr nv \<Rightarrow>
          (case Nat_UnmarshalBinary cd sb of
             Inl err \<Rightarrow> Returns (p\<lparr>p_n := Some nv\<rparr>, Some err)
           | Inr sv \<Rightarrow>
              (case Nat_UnmarshalBinary cd tb of
                 Inl err \<Rightarrow> Returns (p\<lparr>p_n := Some nv, p_s := Some sv\<rparr>, Some err)
               | Inr tv \<Rightarrow>
                   Returns (p\<lparr>p_n := Some nv, p_s := Some sv, p_t := Some tv\<rparr>, None))))"
proof -
  from size have pre: "6 + length nb + length sb \<le> 65535" by simp
  have i5: "unat (of_nat (2 + length nb + 2 + length sb + 2 + length tb) :: 16 word)
      = 2 + length nb + 2 + length sb + 2 + length tb"
    using size by (simp only: unat16)
  have r5: "reslice (Slice ((LittleEndian_PutUint16 (of_nat (length nb)) @ nb
               @ LittleEndian_PutUint16 (of_nat (length sb)) @ sb
               @ LittleEndian_PutUint16 (of_nat (length tb)) @ tb) @ spare) k)
        (2 + length nb + 2 + length sb + 2) (2 + length nb + 2 + length sb + 2 + length tb)
      = Returns (Slice (tb @ spare) (length tb))"
    by (simp add: reslice_def length_PutUint16)
  show ?thesis
    by (simp only: unmarshal_prefix [OF pre] i5 r5 obind_simps slice_bytes_prefix)
qed

lemma unmarshal_overflow:
  fixes nb sb tb :: "byte list"
  assumes size: "6 + length nb + length sb + length tb = 65536" and pos: "0 < length tb"
  shows "UnmarshalBiinary cd p
      (Slice ((LittleEndian_PutUint16 (of_nat (length nb)) @ nb
               @ LittleEndian_PutUint16 (of_nat (length sb)) @ sb
               @ LittleEndian_PutUint16 (of_nat (length tb)) @ tb) @ spare) k) = Panics"
proof -
  from size pos have pre: "6 + length nb + length sb \<le> 65535" by arith
  from size have "2 + length nb + 2 + length sb + 2 + length tb = 65536" by simp
  then have i5: "unat (of_nat (2 + length nb + 2 + length sb + 2 + length tb) :: 16 word) = 0"
    by simp
  have r5: "reslice (Slice ((LittleEndian_PutUint16 (of_nat (length nb)) @ nb
               @ LittleEndian_PutUint16 (of_nat (length sb)) @ sb
               @ LittleEndian_PutUint16 (of_nat (length tb)) @ tb) @ spare) k)
        (2 + length nb + 2 + length sb + 2) 0 = Panics"
    by (simp add: reslice_def)
  show ?thesis
    by (simp only: unmarshal_prefix [OF pre] i5 r5 obind_simps)
qed


lemma exact_slice_spare: "exact_slice w = Slice (w @ []) (length w)"
  by (simp add: exact_slice_def)

text \<open>
  Claim C9, amended. For Pedersen parameters \<open>(N, s, t)\<close> (valid ones among them) whose
  encodings are decoded back to \<open>N\<close>, \<open>s\<close>, \<open>t\<close> by the codec and whose serialization
  is at most 65535 bytes long, \<open>MarshalBiinary\<close> produces exactly
  \<open>u16_le(len(N)) || N || u16_le(len(s)) || s || u16_le(len(t)) || t\<close>, and
  \<open>UnmarshalBiinary\<close> of these bytes yields the same parameters.
\<close>

theorem marshal_unmarshal_roundtrip:
  assumes n: "Modulus_MarshalBinary cd nv = Inr nb" "Modulus_UnmarshalBinary cd nb = Inr nv"
    and s: "Nat_MarshalBinary cd sv = Inr sb" "Nat_UnmarshalBinary cd sb = Inr sv"
    and t: "Nat_MarshalBinary cd tv = Inr tb" "Nat_UnmarshalBinary cd tb = Inr tv"
    and size: "6 + length nb + length sb + length tb \<le> 65535"
  shows "MarshalBiinary cd \<lparr>p_n = Some nv, p_s = Some sv, p_t = Some tv\<rparr>
           = Returns (Inr (u16_le (length nb) @ nb @ u16_le (length sb) @ sb
                            @ u16_le (length tb) @ tb))
       \<and> UnmarshalBiinary cd p0
           (exact_slice (u16_le (length nb) @ nb @ u16_le (length sb) @ sb
                            @ u16_le (length tb) @ tb))
           = Returns (\<lparr>p_n = Some nv, p_s = Some sv, p_t = Some tv\<rparr>, None)
       \<and> unmarshal_marshal cd p0 \<lparr>p_n = Some nv, p_s = Some sv, p_t = Some tv\<rparr>
           = Returns (\<lparr>p_n = Some nv, p_s = Some sv, p_t = Some tv\<rparr>, None)"
proof -
  let ?wire = "u16_le (length nb) @ nb @ u16_le (length sb) @ sb @ u16_le (length tb) @ tb"
  let ?p = "\<lparr>p_n = Some nv, p_s = Some sv, p_t = Some tv\<rparr>"
  have m: "MarshalBiinary cd ?p = Returns (Inr ?wire)"
    by (simp add: MarshalBiinary_def n s t Let_def PutUint16_u16_le)
  have "UnmarshalBiinary cd p0 (Slice (?wire @ []) (length ?wire))
      = Returns (p0\<lparr>p_n := Some nv, p_s := Some sv, p_t := Some tv\<rparr>, None)"
    using unmarshal_wire [OF size, of cd p0 "[]" "length ?wire"]
    by (simp add: n s t PutUint16_u16_le)
  then have u: "UnmarshalBiinary cd p0 (exact_slice ?wire) = Returns (?p, None)"
    by (simp add: exact_slice_def)
  from m u have r: "unmarshal_marshal cd p0 ?p = Returns (?p, None)"
    by (simp add: unmarshal_marshal_def)
  from m u r show ?thesis by (intro conjI)
qed

lemma be_bytes_0: "be_bytes 0 = []"
  by (simp add: be_bytes.simps [of 0])

lemma be_bytes_step: "0 < n \<Longrightarrow> be_bytes n = be_bytes (n div 256) @ [of_nat (n mod 256)]"
  by (subst be_bytes.simps) simp

lemma be_nat_snoc: "be_nat (bs @ [b]) = be_nat bs * 256 + unat b"
  by (simp add: be_nat_def)

lemma be_nat_be_bytes: "be_nat (be_bytes n) = n"
proof (induction n rule: be_bytes.induct)
  case (1 n)
  show ?case
  proof (cases "n = 0")
    case True
    then show ?thesis by (simp add: be_bytes_0 be_nat_def)
  next
    case False
    then have "be_nat (be_bytes n) = be_nat (be_bytes (n div 256)) * 256 + unat (of_nat (n mod 256) :: byte)"
      by (simp add: be_bytes_step be_nat_snoc)
    also have "unat (of_nat (n mod 256) :: byte) = n mod 256"
      by (simp add: unat_of_nat)
    also have "be_nat (be_bytes (n div 256)) = n div 256" using 1 False by simp
    finally show ?thesis by simp
  qed
qed

lemma length_be_bytes_pow: "length (be_bytes (256 ^ k)) = k + 1"
proof (induction k)
  case 0
  show ?case by (simp add: be_bytes_step be_bytes_0)
next
  case (Suc k)
  have "be_bytes (256 ^ Suc k) = be_bytes (256 ^ Suc k div 256) @ [of_nat (256 ^ Suc k mod 256)]"
    by (rule be_bytes_step) simp
  also have "(256::nat) ^ Suc k div 256 = 256 ^ k" by simp
  finally show ?case using Suc by simp
qed

lemma length_be_bytes_pow_1:
  assumes "1 \<le> k"
  shows "length (be_bytes (256 ^ k + 1)) = k + 1"
proof -
  from assms obtain j where k: "k = Suc j" by (cases k) auto
  have "be_bytes (256 ^ k + 1) = be_bytes ((256 ^ k + 1) div 256) @ [of_nat ((256 ^ k + 1) mod 256)]"
    by (rule be_bytes_step) simp
  also have "((256::nat) ^ k + 1) div 256 = 256 ^ j" by (simp add: k)
  finally show ?thesis by (simp add: length_be_bytes_pow k)
qed

lemma be_bytes_1: "be_bytes 1 = [1]" "be_bytes (Suc 0) = [1]"
  by (simp_all add: be_bytes_step be_bytes_0)

lemma be_bytes_2: "be_bytes 2 = [2]"
  by (simp add: be_bytes_step be_bytes_0)

lemma roundtrip_overflow:
  assumes len: "length (be_bytes m) = 65528"
  shows "unmarshal_marshal be_codec p0 \<lparr>p_n = Some m, p_s = Some 1, p_t = Some 2\<rparr> = Panics"
proof -
  let ?wire = "LittleEndian_PutUint16 (of_nat (length (be_bytes m))) @ be_bytes m
               @ LittleEndian_PutUint16 (of_nat (length [1::byte])) @ [1]
               @ LittleEndian_PutUint16 (of_nat (length [2::byte])) @ [2]"
  have m: "MarshalBiinary be_codec \<lparr>p_n = Some m, p_s = Some 1, p_t = Some 2\<rparr> = Returns (Inr ?wire)"
    by (simp add: MarshalBiinary_def be_codec_def Let_def be_bytes_1 be_bytes_2)
  have size: "6 + length (be_bytes m) + length [1::byte] + length [2::byte] = 65536"
    by (simp add: len)
  have "UnmarshalBiinary be_codec p0 (Slice (?wire @ []) (length ?wire)) = Panics"
    by (rule unmarshal_overflow [OF size]) simp
  then have "UnmarshalBiinary be_codec p0 (exact_slice ?wire) = Panics"
    by (simp add: exact_slice_def)
  with m show ?thesis by (simp add: unmarshal_marshal_def)
qed

lemma validate_odd:
  assumes "odd m" and "2 < m"
  shows "ValidateParameters (Some m) (Some 1) (Some 2) = None"
proof -
  from assms(1) have "coprime 2 m" by simp
  then have "gcd 2 m = 1" by simp
  with assms(2) show ?thesis
    by (simp add: ValidateParameters_def IsValidNatModN_def is_in_unit_group_def)
qed

lemma pow_plus_1_facts:
  assumes "1 \<le> k"
  shows "odd ((256::nat) ^ k + 1)" and "2 < (256::nat) ^ k + 1"
proof -
  from assms obtain j where k: "k = Suc j" by (cases k) auto
  show "odd ((256::nat) ^ k + 1)" by (simp add: k)
  have "(256::nat) ^ k \<ge> 256" using assms by (simp add: k)
  then show "2 < (256::nat) ^ k + 1" by simp
qed

text \<open>
  Beyond 65535 bytes the offsets, computed in \<open>uint16\<close>, wrap around even when each of the
  three lengths fits its prefix: the serialization of \<open>(256^65527 + 1, 1, 2)\<close> is 65536 bytes
  long, and \<open>UnmarshalBiinary\<close> panics on it.
\<close>

lemma marshal_unmarshal_offset_overflow:
  "ValidateParameters (Some (256 ^ 65527 + 1)) (Some 1) (Some 2) = None
   \<and> unmarshal_marshal be_codec \<lparr>p_n = None, p_s = None, p_t = None\<rparr>
        \<lparr>p_n = Some (256 ^ 65527 + 1), p_s = Some 1, p_t = Some 2\<rparr> = Panics"
proof -
  have k: "(1::nat) \<le> 65527" by simp
  have eq: "(65527::nat) + 1 = 65528" by simp
  have len: "length (be_bytes (256 ^ 65527 + 1)) = 65528"
    by (rule trans [OF length_be_bytes_pow_1 [OF k] eq])
  show ?thesis
    by (rule conjI [OF validate_odd [OF pow_plus_1_facts [OF k]] roundtrip_overflow [OF len]])
qed

lemma be_bytes_pow: "be_bytes (256 ^ k) = 1 # replicate k 0"
proof (induction k)
  case 0
  show ?case by (simp add: be_bytes_1)
next
  case (Suc k)
  have "be_bytes (256 ^ Suc k) = be_bytes (256 ^ Suc k div 256) @ [of_nat (256 ^ Suc k mod 256)]"
    by (rule be_bytes_step) simp
  also have "(256::nat) ^ Suc k div 256 = 256 ^ k" by simp
  finally show ?case using Suc by (simp add: replicate_append_same)
qed

lemma be_bytes_pow_1:
  "be_bytes (256 ^ Suc k + 1) = 1 # replicate k 0 @ [1]"
proof -
  have "be_bytes (256 ^ Suc k + 1)
      = be_bytes ((256 ^ Suc k + 1) div 256) @ [of_nat ((256 ^ Suc k + 1) mod 256)]"
    by (rule be_bytes_step) simp
  also have "((256::nat) ^ Suc k + 1) div 256 = 256 ^ k" by simp
  finally show ?thesis by (simp add: be_bytes_pow)
qed

lemma unmarshal_truncated:
  "UnmarshalBiinary cd p (Slice ([1, 0] @ (b0 # 0 # 0 # 0 # 0 # rest)) k) =
     (case Modulus_UnmarshalBinary cd [b0] of
         Inl err \<Rightarrow> Returns (p, Some err)
       | Inr nv \<Rightarrow>
          (case Nat_UnmarshalBinary cd [] of
             Inl err \<Rightarrow> Returns (p\<lparr>p_n := Some nv\<rparr>, Some err)
           | Inr sv \<Rightarrow> Returns (p\<lparr>p_n := Some nv, p_s := Some sv, p_t := Some sv\<rparr>, None)))"
  by (simp add: UnmarshalBiinary_def obind_def reslice_def LittleEndian_Uint16_def slice_bytes_def
      split: sum.splits)

lemma roundtrip_truncated:
  assumes bytes: "be_bytes m = 1 # 0 # 0 # 0 # 0 # rest" and len: "length (be_bytes m) = 65537"
  shows "unmarshal_marshal be_codec \<lparr>p_n = None, p_s = None, p_t = None\<rparr>
           \<lparr>p_n = Some m, p_s = Some 1, p_t = Some 2\<rparr>
         = Returns (\<lparr>p_n = Some 1, p_s = Some 0, p_t = Some 0\<rparr>, None)"
proof -
  have nl: "LittleEndian_PutUint16 (of_nat (length (be_bytes m))) = [1, 0]"
    by (simp add: len LittleEndian_PutUint16_def)
  have w0: "MarshalBiinary be_codec \<lparr>p_n = Some m, p_s = Some 1, p_t = Some 2\<rparr>
      = Returns (Inr (LittleEndian_PutUint16 (of_nat (length (be_bytes m))) @ be_bytes m
          @ LittleEndian_PutUint16 1 @ [1] @ LittleEndian_PutUint16 1 @ [2]))"
    by (simp add: MarshalBiinary_def be_codec_def Let_def be_bytes_1 be_bytes_2)
  let ?tail = "rest @ LittleEndian_PutUint16 1 @ [1] @ LittleEndian_PutUint16 1 @ [2]"
  have w: "MarshalBiinary be_codec \<lparr>p_n = Some m, p_s = Some 1, p_t = Some 2\<rparr>
      = Returns (Inr ([1, 0] @ (1 # 0 # 0 # 0 # 0 # ?tail)))"
    using w0 [unfolded nl] by (simp only: bytes append_Cons append_Nil)
  have u: "UnmarshalBiinary be_codec \<lparr>p_n = None, p_s = None, p_t = None\<rparr>
        (Slice ([1, 0] @ (1 # 0 # 0 # 0 # 0 # ?tail)) (length ([1, 0] @ (1 # 0 # 0 # 0 # 0 # ?tail))))
      = Returns (\<lparr>p_n = Some 1, p_s = Some 0, p_t = Some 0\<rparr>, None)"
    by (simp only: unmarshal_truncated) (simp add: be_codec_def be_nat_def)
  show ?thesis
    by (simp only: unmarshal_marshal_def w exact_slice_def u outcome.case sum.case)
qed

text \<open>
  Claim C9, as stated, fails. The parameters \<open>(256^65536 + 1, 1, 2)\<close> are valid; the encoding
  of \<open>N\<close> is 65537 bytes long, which the \<open>uint16\<close> prefix records as 1; \<open>UnmarshalBiinary\<close>
  of the serialization returns no error and the parameters \<open>(1, 0, 0)\<close>.
\<close>

theorem marshal_unmarshal_counterexample:
  "ValidateParameters (Some (256 ^ 65536 + 1)) (Some 1) (Some 2) = None
   \<and> unmarshal_marshal be_codec \<lparr>p_n = None, p_s = None, p_t = None\<rparr>
        \<lparr>p_n = Some (256 ^ 65536 + 1), p_s = Some 1, p_t = Some 2\<rparr>
      = Returns (\<lparr>p_n = Some 1, p_s = Some 0, p_t = Some 0\<rparr>, None)"
proof -
  have k: "(1::nat) \<le> 65536" by simp
  have S: "Suc 65535 = (65536::nat)" by simp
  have r: "replicate 65535 (0::byte) = 0 # 0 # 0 # 0 # replicate 65531 0"
  proof -
    have "(65535::nat) = Suc (Suc (Suc (Suc 65531)))" by simp
    then show ?thesis by (simp only: replicate.simps)
  qed
  have bytes: "be_bytes (256 ^ 65536 + 1) = 1 # 0 # 0 # 0 # 0 # (replicate 65531 0 @ [1])"
    using be_bytes_pow_1 [of 65535, unfolded S] by (simp only: r append_Cons)
  have eq: "65536 + 1 = (65537::nat)" by simp
  have len: "length (be_bytes (256 ^ 65536 + 1)) = 65537"
    by (rule trans [OF length_be_bytes_pow_1 [OF k] eq])
  show ?thesis
    by (rule conjI [OF validate_odd [OF pow_plus_1_facts [OF k]] roundtrip_truncated [OF bytes len]])
qed

theorem marshal_unmarshal_roundtrip_witness:
  "Modulus_MarshalBinary be_codec 15 = Inr [15] \<and> Modulus_UnmarshalBinary be_codec [15] = Inr 15
   \<and> Nat_MarshalBinary be_codec 2 = Inr [2] \<and> Nat_UnmarshalBinary be_codec [2] = Inr 2
   \<and> Nat_MarshalBinary be_codec 4 = Inr [4] \<and> Nat_UnmarshalBinary be_codec [4] = Inr 4
   \<and> 6 + length [15::byte] + length [2::byte] + length [4::byte] \<le> (65535::nat)
   \<and> MarshalBiinary be_codec \<lparr>p_n = Some 15, p_s = Some 2, p_t = Some 4\<rparr>
        = Returns (Inr [1, 0, 15, 1, 0, 2, 1, 0, 4])
   \<and> UnmarshalBiinary be_codec \<lparr>p_n = None, p_s = None, p_t = None\<rparr>
        (exact_slice [1, 0, 15, 1, 0, 2, 1, 0, 4])
        = Returns (\<lparr>p_n = Some 15, p_s = Some 2, p_t = Some 4\<rparr>, None)"
proof -
  have b15: "be_bytes 15 = [15]" and b2: "be_bytes 2 = [2]" and b4: "be_bytes 4 = [4]"
    by (simp_all add: be_bytes_step be_bytes_0)
  have n: "Modulus_MarshalBinary be_codec 15 = Inr [15]" "Modulus_UnmarshalBinary be_codec [15] = Inr 15"
    by (simp_all add: be_codec_def b15 be_nat_def)
  have s: "Nat_MarshalBinary be_codec 2 = Inr [2]" "Nat_UnmarshalBinary be_codec [2] = Inr 2"
    by (simp_all add: be_codec_def b2 be_nat_def)
  have t: "Nat_MarshalBinary be_codec 4 = Inr [4]" "Nat_UnmarshalBinary be_codec [4] = Inr 4"
    by (simp_all add: be_codec_def b4 be_nat_def)
  have size: "6 + length [15::byte] + length [2::byte] + length [4::byte] \<le> (65535::nat)" by simp
  note r = marshal_unmarshal_roundtrip [OF n s t size, of "\<lparr>p_n = None, p_s = None, p_t = None\<rparr>"]
  from r have m: "MarshalBiinary be_codec \<lparr>p_n = Some 15, p_s = Some 2, p_t = Some 4\<rparr>
        = Returns (Inr [1, 0, 15, 1, 0, 2, 1, 0, 4])"
    by (simp add: u16_le_def)
  from r have u: "UnmarshalBiinary be_codec \<lparr>p_n = None, p_s = None, p_t = None\<rparr>
        (exact_slice [1, 0, 15, 1, 0, 2, 1, 0, 4])
        = Returns (\<lparr>p_n = Some 15, p_s = Some 2, p_t = Some 4\<rparr>, None)"
    by (simp add: u16_le_def)
  from n s t size m u show ?thesis by (intro conjI)
qed

section \<open>Properties of Pedersen verification\<close>

lemma ModInverse_correct:
  assumes cop: "gcd x m = 1" and m: "1 < m"
  shows "(ModInverse m x * x) mod m = 1"
proof -
  let ?u = "fst (bezw x m)" and ?v = "snd (bezw x m)"
  have bez: "?u * int x + ?v * int m = 1"
    using bezw_aux [of x m] cop by simp
  have nonneg: "0 \<le> ?u mod int m" using m by simp
  have "int ((ModInverse m x * x) mod m) = ((?u mod int m) * int x) mod int m"
    using nonneg by (simp add: ModInverse_def zmod_int)
  also have "\<dots> = (?u * int x) mod int m" by (simp add: mod_mult_left_eq)
  also have "\<dots> = (?u * int x + ?v * int m) mod int m" by simp
  also have "\<dots> = 1" using bez m by simp
  finally show ?thesis by simp
qed

lemma inverse_power:
  assumes inv: "(xi * x) mod m = (1::nat)"
  shows "(xi ^ k * x ^ k) mod m = 1 mod m"
proof -
  have "(xi ^ k * x ^ k) mod m = ((xi * x) ^ k) mod m" by (simp add: power_mult_distrib)
  also have "\<dots> = (((xi * x) mod m) ^ k) mod m" by (simp add: power_mod)
  finally show ?thesis by (simp add: inv)
qed

lemma unit_cancel:
  assumes inv: "(ui * u) mod m = (1::nat)" 
  shows "(a * u) mod m = (b * u) mod m \<longleftrightarrow> a mod m = b mod m"
proof
  assume eq: "(a * u) mod m = (b * u) mod m"
  have strip: "(c * u * ui) mod m = c mod m" for c
  proof -
    have "(c * u * ui) mod m = (c * (ui * u)) mod m" by (simp add: mult_ac)
    also have "\<dots> = (c * ((ui * u) mod m)) mod m" by (simp add: mod_mult_right_eq)
    finally show ?thesis by (simp add: inv)
  qed
  have "(a * u * ui) mod m = (((a * u) mod m) * ui) mod m" by (simp add: mod_mult_left_eq)
  also have "\<dots> = (((b * u) mod m) * ui) mod m" by (simp add: eq)
  also have "\<dots> = (b * u * ui) mod m" by (simp add: mod_mult_left_eq)
  finally show "a mod m = b mod m" by (simp add: strip)
next
  assume "a mod m = b mod m"
  then show "(a * u) mod m = (b * u) mod m" by (rule mod_mult_cong) simp
qed


lemma unit_group_facts:
  assumes "is_in_unit_group x m"
  shows "gcd x m = 1" and "1 < m"
  using assms by (auto simp add: is_in_unit_group_def)

lemma Verify_defined:
  "Verify \<lparr>p_n = Some m, p_s = Some s, p_t = Some t\<rparr> (Some a) (Some b) (Some e) (Some S) (Some T) =
     (if is_in_unit_group S m \<and> is_in_unit_group T m
      then Returns ((ExpI m s a * ExpI m t b) mod m = (ExpI m T e * S) mod m)
      else Returns False)"
  by (simp add: Verify_def IsValidNatModN_def ModMul_def Let_def)

lemma signed_power_clear:
  assumes inv: "(xi * x) mod m = (1::nat)" and m: "1 < m"
  shows "((if e < 0 then xi ^ nat (- e) else x ^ nat e) * x ^ nat (- e)) mod m = x ^ nat e mod m"
proof (cases "e < 0")
  case True
  have "(xi ^ nat (- e) * x ^ nat (- e)) mod m = 1 mod m" by (rule inverse_power [OF inv])
  then show ?thesis using True by simp
next
  case False
  then show ?thesis by simp
qed

lemma congruence_with_inverses:
  assumes si: "(si * s) mod m = (1::nat)" and ti: "(ti * t) mod m = (1::nat)"
    and Ti: "(Ti * T) mod m = (1::nat)"
    and m: "1 < m"
  shows "pedersen_congruence m s t a b e S T \<longleftrightarrow>
     ((if a < 0 then si ^ nat (- a) else s ^ nat a)
        * (if b < 0 then ti ^ nat (- b) else t ^ nat b)) mod m
     = (S * (if e < 0 then Ti ^ nat (- e) else T ^ nat e)) mod m"
proof -
  let ?A = "if a < 0 then si ^ nat (- a) else s ^ nat a"
  let ?B = "if b < 0 then ti ^ nat (- b) else t ^ nat b"
  let ?C = "if e < 0 then Ti ^ nat (- e) else T ^ nat e"
  let ?U = "s ^ nat (- a) * t ^ nat (- b) * T ^ nat (- e)"
  let ?Ui = "si ^ nat (- a) * ti ^ nat (- b) * Ti ^ nat (- e)"
  have cA: "(?A * s ^ nat (- a)) mod m = s ^ nat a mod m" by (rule signed_power_clear [OF si m])
  have cB: "(?B * t ^ nat (- b)) mod m = t ^ nat b mod m" by (rule signed_power_clear [OF ti m])
  have cC: "(?C * T ^ nat (- e)) mod m = T ^ nat e mod m" by (rule signed_power_clear [OF Ti m])
  have vs: "(si ^ nat (- a) * s ^ nat (- a)) mod m = 1 mod m" by (rule inverse_power [OF si])
  have vt: "(ti ^ nat (- b) * t ^ nat (- b)) mod m = 1 mod m" by (rule inverse_power [OF ti])
  have vT: "(Ti ^ nat (- e) * T ^ nat (- e)) mod m = 1 mod m" by (rule inverse_power [OF Ti])
  have "(?Ui * ?U) mod m
      = ((si ^ nat (- a) * s ^ nat (- a)) * ((ti ^ nat (- b) * t ^ nat (- b))
          * (Ti ^ nat (- e) * T ^ nat (- e)))) mod m"
    by (simp add: mult_ac)
  also have "\<dots> = ((1 mod m) * ((1 mod m) * (1 mod m))) mod m"
    by (intro mod_mult_cong) (simp_all add: vs vt vT)
  finally have U: "(?Ui * ?U) mod m = 1" using m by simp
  have left: "(?A * ?B * ?U) mod m = (s ^ nat a * t ^ nat b * T ^ nat (- e)) mod m"
  proof -
    have "(?A * ?B * ?U) mod m
        = ((?A * s ^ nat (- a)) * ((?B * t ^ nat (- b)) * T ^ nat (- e))) mod m"
      by (simp only: mult_ac)
    also have "\<dots> = ((s ^ nat a) * ((t ^ nat b) * T ^ nat (- e))) mod m"
      by (intro mod_mult_cong cA cB refl)
    finally show ?thesis by (simp only: mult_ac)
  qed
  have right: "(S * ?C * ?U) mod m = (S * T ^ nat e * s ^ nat (- a) * t ^ nat (- b)) mod m"
  proof -
    have "(S * ?C * ?U) mod m
        = ((?C * T ^ nat (- e)) * (S * (s ^ nat (- a) * t ^ nat (- b)))) mod m"
      by (simp only: mult_ac)
    also have "\<dots> = ((T ^ nat e) * (S * (s ^ nat (- a) * t ^ nat (- b)))) mod m"
      by (intro mod_mult_cong cC refl)
    finally show ?thesis by (simp only: mult_ac)
  qed
  have "((?A * ?B) mod m = (S * ?C) mod m)
      \<longleftrightarrow> ((?A * ?B * ?U) mod m = (S * ?C * ?U) mod m)"
    by (rule unit_cancel [OF U, symmetric])
  then show ?thesis by (simp only: left right pedersen_congruence_def)
qed

lemma ExpI_signed_power:
  "ExpI m x e = (if e < 0 then (ModInverse m x) ^ nat (- e) else x ^ nat e) mod m"
  by (simp add: ExpI_def)

lemma Verify_congruence:
  assumes s: "is_in_unit_group s m" and t: "is_in_unit_group t m" and T: "is_in_unit_group T m"
  shows "((ExpI m s a * ExpI m t b) mod m = (ExpI m T e * S) mod m)
     \<longleftrightarrow> pedersen_congruence m s t a b e S T"
proof -
  note m = unit_group_facts(2) [OF s]
  note inv = ModInverse_correct [OF unit_group_facts(1) [OF s] m]
    ModInverse_correct [OF unit_group_facts(1) [OF t] m]
    ModInverse_correct [OF unit_group_facts(1) [OF T] m]
  have l: "(ExpI m s a * ExpI m t b) mod m
      = ((if a < 0 then (ModInverse m s) ^ nat (- a) else s ^ nat a)
          * (if b < 0 then (ModInverse m t) ^ nat (- b) else t ^ nat b)) mod m"
    by (simp only: ExpI_signed_power mod_mult_eq)
  have r: "(ExpI m T e * S) mod m
      = (S * (if e < 0 then (ModInverse m T) ^ nat (- e) else T ^ nat e)) mod m"
    by (simp only: ExpI_signed_power mod_mult_left_eq mult.commute [of S])
  show ?thesis
    by (simp only: l r congruence_with_inverses [OF inv m])
qed

lemma validate_units:
  assumes "ValidateParameters (Some m) (Some s) (Some t) = None"
  shows "is_in_unit_group s m" and "is_in_unit_group t m"
  using assms
  by (auto simp add: ValidateParameters_def IsValidNatModN_def split: if_splits)

lemma Verify_nil:
  assumes "a = None \<or> b = None \<or> e = None \<or> S = None \<or> T = None"
  shows "Verify p a b e S T = Returns False"
  using assms by (auto simp add: Verify_def)

text \<open>
  Claim C8. For valid Pedersen parameters \<open>(N, s, t)\<close>: on arguments that are all present,
  with \<open>S\<close> and \<open>T\<close> in \<open>[1, N-1]\<close> and coprime to \<open>N\<close>, \<open>Verify\<close> returns true exactly when
  \<open>s^a \<cdot> t^b \<equiv> S \<cdot> T^e (mod N)\<close>; it returns false when \<open>S\<close> or \<open>T\<close> is outside
  \<open>[1, N-1]\<close> or not coprime to \<open>N\<close>, and when any argument is nil. Lemma
  \<open>congruence_with_inverses\<close> reads the congruence with the negative powers taken as the
  powers of any inverses of \<open>s\<close>, \<open>t\<close>, \<open>T\<close> modulo \<open>N\<close>.
\<close>

theorem verify_iff_congruence:
  assumes valid: "ValidateParameters (Some m) (Some s) (Some t) = None"
  shows "((1 \<le> S \<and> S \<le> m - 1 \<and> gcd S m = 1) \<and> (1 \<le> T \<and> T \<le> m - 1 \<and> gcd T m = 1)
            \<longrightarrow> Verify \<lparr>p_n = Some m, p_s = Some s, p_t = Some t\<rparr>
                   (Some a) (Some b) (Some e) (Some S) (Some T)
                 = Returns (pedersen_congruence m s t a b e S T))
       \<and> (\<not> (1 \<le> S \<and> S \<le> m - 1 \<and> gcd S m = 1) \<or> \<not> (1 \<le> T \<and> T \<le> m - 1 \<and> gcd T m = 1)
            \<longrightarrow> Verify \<lparr>p_n = Some m, p_s = Some s, p_t = Some t\<rparr>
                   (Some a) (Some b) (Some e) (Some S) (Some T)
                 = Returns False)
       \<and> (a' = None \<or> b' = None \<or> e' = None \<or> S' = None \<or> T' = None
            \<longrightarrow> Verify \<lparr>p_n = Some m, p_s = Some s, p_t = Some t\<rparr> a' b' e' S' T' = Returns False)"
proof (intro conjI impI)
  assume "(1 \<le> S \<and> S \<le> m - 1 \<and> gcd S m = 1) \<and> (1 \<le> T \<and> T \<le> m - 1 \<and> gcd T m = 1)"
  then have S: "is_in_unit_group S m" and T: "is_in_unit_group T m"
    by (auto simp add: is_in_unit_group_def)
  show "Verify \<lparr>p_n = Some m, p_s = Some s, p_t = Some t\<rparr>
          (Some a) (Some b) (Some e) (Some S) (Some T)
        = Returns (pedersen_congruence m s t a b e S T)"
    by (simp add: Verify_defined S T Verify_congruence [OF validate_units [OF valid] T])
next
  assume "\<not> (1 \<le> S \<and> S \<le> m - 1 \<and> gcd S m = 1) \<or> \<not> (1 \<le> T \<and> T \<le> m - 1 \<and> gcd T m = 1)"
  then have "\<not> (is_in_unit_group S m \<and> is_in_unit_group T m)"
    by (auto simp add: is_in_unit_group_def)
  then show "Verify \<lparr>p_n = Some m, p_s = Some s, p_t = Some t\<rparr>
          (Some a) (Some b) (Some e) (Some S) (Some T) = Returns False"
    by (auto simp add: Verify_defined)
next
  assume "a' = None \<or> b' = None \<or> e' = None \<or> S' = None \<or> T' = None"
  then show "Verify \<lparr>p_n = Some m, p_s = Some s, p_t = Some t\<rparr> a' b' e' S' T' = Returns False"
    by (rule Verify_nil)
qed

lemma gcd_examples:
  "gcd (2::nat) 15 = 1" "gcd (4::nat) 15 = 1" "gcd (8::nat) 15 = 1" "gcd (1::nat) 15 = 1"
  "gcd (7::nat) 15 = 1"
  by code_simp+

theorem verify_iff_congruence_witness:
  "ValidateParameters (Some 15) (Some 2) (Some 4) = None
   \<and> Verify \<lparr>p_n = Some 15, p_s = Some 2, p_t = Some 4\<rparr>
        (Some (- 1)) (Some 0) (Some 0) (Some 8) (Some 1) = Returns True
   \<and> Verify \<lparr>p_n = Some 15, p_s = Some 2, p_t = Some 4\<rparr>
        (Some (- 1)) (Some 2) (Some (- 3)) (Some 8) (Some 7) = Returns False
   \<and> Verify \<lparr>p_n = Some 15, p_s = Some 2, p_t = Some 4\<rparr>
        (Some 1) (Some 0) (Some 0) (Some 17) (Some 1) = Returns False
   \<and> Verify \<lparr>p_n = Some 15, p_s = Some 2, p_t = Some 4\<rparr>
        None (Some 0) (Some 0) (Some 8) (Some 1) = Returns False"
proof -
  have valid: "ValidateParameters (Some 15) (Some 2) (Some 4) = None"
    by (simp add: ValidateParameters_def IsValidNatModN_def is_in_unit_group_def gcd_examples)
  note t1 = verify_iff_congruence [OF valid, of 8 1 "- 1" 0 0 None None None None None]
  note t2 = verify_iff_congruence [OF valid, of 8 7 "- 1" 2 "- 3" None None None None None]
  note t3 = verify_iff_congruence [OF valid, of 17 1 1 0 0 None "Some 0" "Some 0" "Some 8" "Some 1"]
  have c1: "Verify \<lparr>p_n = Some 15, p_s = Some 2, p_t = Some 4\<rparr>
        (Some (- 1)) (Some 0) (Some 0) (Some 8) (Some 1) = Returns True"
    using t1 by (simp add: gcd_examples pedersen_congruence_def)
  have c2: "Verify \<lparr>p_n = Some 15, p_s = Some 2, p_t = Some 4\<rparr>
        (Some (- 1)) (Some 2) (Some (- 3)) (Some 8) (Some 7) = Returns False"
    using t2 by (simp add: gcd_examples pedersen_congruence_def)
  have c3: "Verify \<lparr>p_n = Some 15, p_s = Some 2, p_t = Some 4\<rparr>
        (Some 1) (Some 0) (Some 0) (Some 17) (Some 1) = Returns False"
    using t3 by simp
  have c4: "Verify \<lparr>p_n = Some 15, p_s = Some 2, p_t = Some 4\<rparr>
        None (Some 0) (Some 0) (Some 8) (Some 1) = Returns False"
    using t3 by simp
  from valid c1 c2 c3 c4 show ?thesis by (intro conjI)
qed


end
